theory Spec2Isabelle
  imports Complex_Main "HOL-Library.Sublist"
begin

unbundle bit_operations_syntax

section \<open>The register protocol of \<^verbatim>\<open>daemon/attiny_i2c.py\<close>\<close>

text \<open>
  The class \<^verbatim>\<open>ATTiny\<close> talks to a microcontroller over an I2C bus through the
  \<^verbatim>\<open>smbus\<close> library. Python integers are unbounded, so every value is an \<open>int\<close>;
  the bit operations of \<open>int\<close> in HOL are the two's complement ones of Python
  (\<open>push_bit 1 x\<close> is \<^verbatim>\<open>x << 1\<close>).
\<close>

subsection \<open>Exceptions\<close>

text \<open>
  The exceptions the methods can meet. \<open>OSError\<close> stands for whatever the bus library
  raises; \<open>IndexError\<close> is an index past the end of a list; \<open>ValueError\<close> is
  \<^verbatim>\<open>int.from_bytes\<close> on a list with an element outside \<^verbatim>\<open>range(256)\<close>;
  \<open>OverflowError\<close> is \<^verbatim>\<open>int.to_bytes\<close> on a value that does not fit;
  \<open>UnboundLocalError\<close> is the use of the loop variable \<^verbatim>\<open>x\<close> after a loop that never ran.
\<close>

datatype exn = OSError | IndexError | ValueError | OverflowError | UnboundLocalError

text \<open>\<^verbatim>\<open>xs[i]\<close> for a non-negative index: past the end it raises.\<close>

definition py_index :: "'a list \<Rightarrow> nat \<Rightarrow> exn + 'a" where
  "py_index xs i = (if i < length xs then Inr (xs ! i) else Inl IndexError)"

subsection \<open>Checksum\<close>

definition POLYNOME :: int where
  "POLYNOME = 0x31"

text \<open>
  \<^verbatim>\<open>addCrc\<close>: the body of \<^verbatim>\<open>for bitnumber in range(0,8)\<close>, run \<open>k\<close> more times on the
  pair \<^verbatim>\<open>(crc, n)\<close>; the mask \<^verbatim>\<open>& 0xFF\<close> is applied once, at the return.
\<close>

fun addCrc_loop :: "nat \<Rightarrow> int \<Rightarrow> int \<Rightarrow> int" where
  "addCrc_loop 0 crc n = crc"
| "addCrc_loop (Suc k) crc n =
     addCrc_loop k
       (if (n XOR crc) AND 0x80 \<noteq> 0 then push_bit 1 crc XOR POLYNOME else push_bit 1 crc)
       (push_bit 1 n)"

definition addCrc :: "int \<Rightarrow> int \<Rightarrow> int" where
  "addCrc crc n = addCrc_loop 8 crc n AND 0xFF"

text \<open>
  \<^verbatim>\<open>calcCRC\<close>: \<^verbatim>\<open>for elem in range(0, len)\<close> from index \<open>elem\<close> with \<open>k\<close> rounds to go;
  \<^verbatim>\<open>read[elem]\<close> raises past the end of \<^verbatim>\<open>read\<close>.
\<close>

fun calcCRC_loop :: "int \<Rightarrow> int list \<Rightarrow> nat \<Rightarrow> nat \<Rightarrow> exn + int" where
  "calcCRC_loop crc read elem 0 = Inr crc"
| "calcCRC_loop crc read elem (Suc k) =
     (case py_index read elem of
        Inl e \<Rightarrow> Inl e
      | Inr b \<Rightarrow> calcCRC_loop (addCrc crc b) read (Suc elem) k)"

definition calcCRC :: "int \<Rightarrow> int list \<Rightarrow> nat \<Rightarrow> exn + int" where
  "calcCRC register read len = calcCRC_loop (addCrc 0 register) read 0 len"

subsection \<open>The checksum as the specification words it\<close>

text \<open>
  One bit step on the pair (accumulator, input): the accumulator is shifted left, XORed
  with \<open>0x31\<close> exactly when its top bit and the top bit of the input differ, and reduced to
  8 bits; the input is shifted left and not masked. A byte is folded in by 8 bit steps, and
  the checksum folds the register address and then the payload into the accumulator 0.
\<close>

definition spec_bit_step :: "int \<times> int \<Rightarrow> int \<times> int" where
  "spec_bit_step s =
     (let acc = fst s; inp = snd s;
          shifted = push_bit 1 acc;
          acc' = (if bit acc 7 \<noteq> bit inp 7 then shifted XOR 0x31 else shifted)
      in (acc' AND 0xFF, push_bit 1 inp))"

definition spec_fold_byte :: "int \<Rightarrow> int \<Rightarrow> int" where
  "spec_fold_byte acc b = fst ((spec_bit_step ^^ 8) (acc, b))"

definition spec_crc8 :: "int \<Rightarrow> int list \<Rightarrow> int" where
  "spec_crc8 a p = foldl spec_fold_byte 0 (a # p)"

subsection \<open>Value codec\<close>

text \<open>
  \<^verbatim>\<open>value.to_bytes(2, byteorder='little', signed=True)\<close>: two's complement, low byte
  first; a value that does not fit in 16 bits raises. \<open>mod\<close> and \<open>div\<close> on \<open>int\<close> round
  towards minus infinity, as Python's do.
\<close>

definition to_bytes_2_signed :: "int \<Rightarrow> exn + int list" where
  "to_bytes_2_signed v =
     (if - 32768 \<le> v \<and> v \<le> 32767 then Inr [v mod 256, v div 256 mod 256]
      else Inl OverflowError)"

text \<open>
  \<^verbatim>\<open>int.from_bytes(bs, byteorder='little', signed=...)\<close> on a list of integers: an
  element outside \<^verbatim>\<open>range(256)\<close> raises; the empty list is 0.
\<close>

definition is_byte :: "int \<Rightarrow> bool" where
  "is_byte b = (0 \<le> b \<and> b \<le> 255)"

fun le_value :: "int list \<Rightarrow> int" where
  "le_value [] = 0"
| "le_value (b # bs) = b + 256 * le_value bs"

definition from_bytes :: "bool \<Rightarrow> int list \<Rightarrow> exn + int" where
  "from_bytes sgn_flag bs =
     (if list_all is_byte bs then
        (let u = le_value bs in
         Inr (if sgn_flag \<and> bs \<noteq> [] \<and> 2 ^ (8 * length bs - 1) \<le> u
              then u - 2 ^ (8 * length bs) else u))
      else Inl ValueError)"

subsection \<open>The device handle, the bus and the trace of bus operations\<close>

text \<open>The fields \<^verbatim>\<open>__init__\<close> stores.\<close>

record attiny =
  bus_number :: int
  address :: int
  time_const :: real
  num_retries :: int

text \<open>
  The \<^verbatim>\<open>smbus\<close> library is outside the repository. It is a parameter of the model: a
  device state \<open>'d\<close> and three operations on it, each of which may raise.
  \<^verbatim>\<open>bus.close()\<close> does not raise and does not touch the device.
\<close>

record 'd transport =
  SMBus :: "int \<Rightarrow> 'd \<Rightarrow> exn option \<times> 'd"
  write_i2c_block_data :: "int \<Rightarrow> int \<Rightarrow> int list \<Rightarrow> 'd \<Rightarrow> exn option \<times> 'd"
  read_i2c_block_data :: "int \<Rightarrow> int \<Rightarrow> nat \<Rightarrow> 'd \<Rightarrow> (exn + int list) \<times> 'd"

text \<open>
  What the methods do to the outside world, in order: a session opened (\<open>EvOpen\<close>, logged
  when \<^verbatim>\<open>smbus.SMBus(...)\<close> returns a session), \<^verbatim>\<open>time.sleep\<close>, a block write and a
  block read with what the library answered, and \<^verbatim>\<open>bus.close()\<close>. Calls of
  \<^verbatim>\<open>logging\<close> are left out.
\<close>

datatype event =
    EvOpen int
  | EvSleep real
  | EvWrite int int "int list" "exn option"
  | EvRead int int nat "exn + int list"
  | EvClose

record 'd world =
  device :: 'd
  trace :: "event list"

fun is_read :: "event \<Rightarrow> bool" where
  "is_read (EvRead a r n res) = True"
| "is_read ev = False"

text \<open>Sessions opened and not closed by \<^verbatim>\<open>bus.close()\<close> after a trace.\<close>

fun open_sessions :: "event list \<Rightarrow> int" where
  "open_sessions [] = 0"
| "open_sessions (EvOpen b # tr) = open_sessions tr + 1"
| "open_sessions (EvClose # tr) = open_sessions tr - 1"
| "open_sessions (ev # tr) = open_sessions tr"

definition open_bus :: "'d transport \<Rightarrow> attiny \<Rightarrow> 'd world \<Rightarrow> exn option \<times> 'd world" where
  "open_bus T A w =
     (case SMBus T (bus_number A) (device w) of
        (Some e, d) \<Rightarrow> (Some e, w\<lparr>device := d\<rparr>)
      | (None, d) \<Rightarrow> (None, w\<lparr>device := d, trace := trace w @ [EvOpen (bus_number A)]\<rparr>))"

definition slept :: "attiny \<Rightarrow> 'd world \<Rightarrow> 'd world" where
  "slept A w = w\<lparr>trace := trace w @ [EvSleep (time_const A)]\<rparr>"

definition sleep :: "attiny \<Rightarrow> 'd world \<Rightarrow> exn option \<times> 'd world" where
  "sleep A w = (if time_const A < 0 then (Some ValueError, w) else (None, slept A w))"

definition write_block ::
  "'d transport \<Rightarrow> attiny \<Rightarrow> int \<Rightarrow> int list \<Rightarrow> 'd world \<Rightarrow> exn option \<times> 'd world" where
  "write_block T A register arg_list w =
     (case write_i2c_block_data T (address A) register arg_list (device w) of
        (res, d) \<Rightarrow>
          (res, w\<lparr>device := d, trace := trace w @ [EvWrite (address A) register arg_list res]\<rparr>))"

definition read_block ::
  "'d transport \<Rightarrow> attiny \<Rightarrow> int \<Rightarrow> nat \<Rightarrow> 'd world \<Rightarrow> (exn + int list) \<times> 'd world" where
  "read_block T A register n w =
     (case read_i2c_block_data T (address A) register n (device w) of
        (res, d) \<Rightarrow>
          (res, w\<lparr>device := d, trace := trace w @ [EvRead (address A) register n res]\<rparr>))"

definition close :: "'d world \<Rightarrow> 'd world" where
  "close w = w\<lparr>trace := trace w @ [EvClose]\<rparr>"

subsection \<open>The retry loop\<close>

text \<open>
  Every method has the same loop:
  \<^verbatim>\<open>
  for x in range(self._num_retries):
      bus = smbus.SMBus(self._bus_number)
      time.sleep(self._time_const)
      try:
          ...body...
      except Exception as e:
          logging.debug(...)
  logging.warning("... after " + str(x) + " retries.")
  return marker
  \<close>
  The body of the \<^verbatim>\<open>try\<close> is a parameter: it ends with \<open>Inr (Some v)\<close> when it returns
  \<open>v\<close> from the method, with \<open>Inr None\<close> when it falls through and with \<open>Inl e\<close> when it
  raises; the handler catches every exception and the loop goes on. \<^verbatim>\<open>smbus.SMBus\<close> and
  \<^verbatim>\<open>time.sleep\<close> are called outside the \<^verbatim>\<open>try\<close>, so their exceptions leave the
  method; \<^verbatim>\<open>time.sleep\<close> raises \<open>ValueError\<close> for a negative delay, after the session
  was opened and before any block operation.
\<close>

fun attempts ::
  "'d transport \<Rightarrow> attiny \<Rightarrow> ('d world \<Rightarrow> (exn + 'a option) \<times> 'd world) \<Rightarrow> nat \<Rightarrow> 'd world
     \<Rightarrow> (exn + 'a option) \<times> 'd world" where
  "attempts T A body 0 w = (Inr None, w)"
| "attempts T A body (Suc k) w =
     (case open_bus T A w of
        (Some e, w1) \<Rightarrow> (Inl e, w1)
      | (None, w1) \<Rightarrow>
          (case sleep A w1 of
             (Some e, w2) \<Rightarrow> (Inl e, w2)
           | (None, w2) \<Rightarrow>
               (case body w2 of
                  (Inr (Some v), w3) \<Rightarrow> (Inr (Some v), w3)
                | (Inr None, w3) \<Rightarrow> attempts T A body k w3
                | (Inl e, w3) \<Rightarrow> attempts T A body k w3)))"

text \<open>
  After the loop, \<^verbatim>\<open>str(x)\<close> raises when the loop never ran (\<^verbatim>\<open>range\<close> of a number
  that is not positive is empty and \<^verbatim>\<open>x\<close> is unbound). \<open>Inr None\<close> is left for the
  \<^verbatim>\<open>return\<close> of the marker.
\<close>

definition retries ::
  "'d transport \<Rightarrow> attiny \<Rightarrow> ('d world \<Rightarrow> (exn + 'a option) \<times> 'd world) \<Rightarrow> 'd world
     \<Rightarrow> (exn + 'a option) \<times> 'd world" where
  "retries T A body w =
     (case attempts T A body (nat (num_retries A)) w of
        (Inr None, w') \<Rightarrow>
          (if num_retries A \<le> 0 then (Inl UnboundLocalError, w') else (Inr None, w'))
      | (Inr (Some v), w') \<Rightarrow> (Inr (Some v), w')
      | (Inl e, w') \<Rightarrow> (Inl e, w'))"

text \<open>The value the method hands to its caller: \<open>marker\<close> when the loop was exhausted.\<close>

definition returning :: "'a \<Rightarrow> (exn + 'a option) \<times> 'w \<Rightarrow> (exn + 'a) \<times> 'w" where
  "returning marker r =
     (case r of
        (Inl e, w) \<Rightarrow> (Inl e, w)
      | (Inr (Some v), w) \<Rightarrow> (Inr v, w)
      | (Inr None, w) \<Rightarrow> (Inr marker, w))"

subsection \<open>Reads\<close>

text \<open>
  The test \<^verbatim>\<open>read[n] == self.calcCRC(register, read, n)\<close>: \<open>Inl\<close> when the index or
  the checksum loop raises.
\<close>

definition crc_matches :: "int \<Rightarrow> int list \<Rightarrow> nat \<Rightarrow> exn + bool" where
  "crc_matches register read n =
     (case py_index read n of
        Inl e \<Rightarrow> Inl e
      | Inr c \<Rightarrow> (case calcCRC register read n of Inl e \<Rightarrow> Inl e | Inr crc \<Rightarrow> Inr (c = crc)))"

definition marker_8bit :: int where
  "marker_8bit = 0xFFFF"

definition marker_16bit :: int where
  "marker_16bit = 0xFFFFFFFF"

definition marker_uptime :: int where
  "marker_uptime = 0xFFFFFFFFFFFF"

definition marker_version :: "int \<times> int \<times> int" where
  "marker_version = (0xFFFF, 0xFFFF, 0xFFFF)"

definition REG_VERSION :: int where
  "REG_VERSION = 0x80"

definition REG_UPTIME :: int where
  "REG_UPTIME = 0x85"

definition get_8bit_try ::
  "'d transport \<Rightarrow> attiny \<Rightarrow> int \<Rightarrow> 'd world \<Rightarrow> (exn + int option) \<times> 'd world" where
  "get_8bit_try T A register w =
     (case read_block T A register 2 w of
        (Inl e, w1) \<Rightarrow> (Inl e, w1)
      | (Inr read, w1) \<Rightarrow>
          (case py_index read 0 of
             Inl e \<Rightarrow> (Inl e, w1)
           | Inr val \<Rightarrow>
               (case crc_matches register read 1 of
                  Inl e \<Rightarrow> (Inl e, close w1)
                | Inr ok \<Rightarrow> (if ok then (Inr (Some val), close w1) else (Inr None, close w1)))))"

definition get_8bit_value_ret ::
  "'d transport \<Rightarrow> attiny \<Rightarrow> int \<Rightarrow> 'd world \<Rightarrow> (exn + int option) \<times> 'd world" where
  "get_8bit_value_ret T A register w = retries T A (get_8bit_try T A register) w"

definition get_8bit_value ::
  "'d transport \<Rightarrow> attiny \<Rightarrow> int \<Rightarrow> 'd world \<Rightarrow> (exn + int) \<times> 'd world" where
  "get_8bit_value T A register w = returning marker_8bit (get_8bit_value_ret T A register w)"

definition get_16bit_try ::
  "'d transport \<Rightarrow> attiny \<Rightarrow> int \<Rightarrow> 'd world \<Rightarrow> (exn + int option) \<times> 'd world" where
  "get_16bit_try T A register w =
     (case read_block T A register 3 w of
        (Inl e, w1) \<Rightarrow> (Inl e, w1)
      | (Inr read, w1) \<Rightarrow>
          (case from_bytes True (take 2 read) of
             Inl e \<Rightarrow> (Inl e, w1)
           | Inr val \<Rightarrow>
               (case crc_matches register read 2 of
                  Inl e \<Rightarrow> (Inl e, close w1)
                | Inr ok \<Rightarrow> (if ok then (Inr (Some val), close w1) else (Inr None, close w1)))))"

definition get_16bit_value_ret ::
  "'d transport \<Rightarrow> attiny \<Rightarrow> int \<Rightarrow> 'd world \<Rightarrow> (exn + int option) \<times> 'd world" where
  "get_16bit_value_ret T A register w = retries T A (get_16bit_try T A register) w"

definition get_16bit_value ::
  "'d transport \<Rightarrow> attiny \<Rightarrow> int \<Rightarrow> 'd world \<Rightarrow> (exn + int) \<times> 'd world" where
  "get_16bit_value T A register w = returning marker_16bit (get_16bit_value_ret T A register w)"

definition get_version_try ::
  "'d transport \<Rightarrow> attiny \<Rightarrow> 'd world \<Rightarrow> (exn + (int \<times> int \<times> int) option) \<times> 'd world" where
  "get_version_try T A w =
     (case read_block T A REG_VERSION 5 w of
        (Inl e, w1) \<Rightarrow> (Inl e, w1)
      | (Inr read, w1) \<Rightarrow>
          (case crc_matches REG_VERSION read 4 of
             Inl e \<Rightarrow> (Inl e, close w1)
           | Inr ok \<Rightarrow>
               (if ok then
                  (case py_index read 2 of
                     Inl e \<Rightarrow> (Inl e, close w1)
                   | Inr major \<Rightarrow>
                       (case py_index read 1 of
                          Inl e \<Rightarrow> (Inl e, close w1)
                        | Inr minor \<Rightarrow>
                            (case py_index read 0 of
                               Inl e \<Rightarrow> (Inl e, close w1)
                             | Inr patch \<Rightarrow> (Inr (Some (major, minor, patch)), close w1))))
                else (Inr None, close w1))))"

definition get_version_ret ::
  "'d transport \<Rightarrow> attiny \<Rightarrow> 'd world \<Rightarrow> (exn + (int \<times> int \<times> int) option) \<times> 'd world" where
  "get_version_ret T A w = retries T A (get_version_try T A) w"

definition get_version ::
  "'d transport \<Rightarrow> attiny \<Rightarrow> 'd world \<Rightarrow> (exn + int \<times> int \<times> int) \<times> 'd world" where
  "get_version T A w = returning marker_version (get_version_ret T A w)"

definition get_uptime_try ::
  "'d transport \<Rightarrow> attiny \<Rightarrow> 'd world \<Rightarrow> (exn + int option) \<times> 'd world" where
  "get_uptime_try T A w =
     (case read_block T A REG_UPTIME 5 w of
        (Inl e, w1) \<Rightarrow> (Inl e, w1)
      | (Inr read, w1) \<Rightarrow>
          (case crc_matches REG_UPTIME read 4 of
             Inl e \<Rightarrow> (Inl e, close w1)
           | Inr ok \<Rightarrow>
               (if ok then
                  (case from_bytes False (take 3 read) of
                     Inl e \<Rightarrow> (Inl e, close w1)
                   | Inr uptime \<Rightarrow> (Inr (Some uptime), close w1))
                else (Inr None, close w1))))"

definition get_uptime_ret ::
  "'d transport \<Rightarrow> attiny \<Rightarrow> 'd world \<Rightarrow> (exn + int option) \<times> 'd world" where
  "get_uptime_ret T A w = retries T A (get_uptime_try T A) w"

definition get_uptime ::
  "'d transport \<Rightarrow> attiny \<Rightarrow> 'd world \<Rightarrow> (exn + int) \<times> 'd world" where
  "get_uptime T A w = returning marker_uptime (get_uptime_ret T A w)"

subsection \<open>Writes\<close>

text \<open>
  \<^verbatim>\<open>arg_list\<close> of \<^verbatim>\<open>set_8bit_value\<close> and of \<^verbatim>\<open>set_16bit_value\<close>, built before the
  loop. The 8-bit method puts \<^verbatim>\<open>value\<close> in the list as it is.
\<close>

definition arg_list_8bit :: "int \<Rightarrow> int \<Rightarrow> int list" where
  "arg_list_8bit register v = (let crc = addCrc (addCrc 0 register) v in [v, crc])"

definition arg_list_16bit :: "int \<Rightarrow> int \<Rightarrow> exn + int list" where
  "arg_list_16bit register v =
     (case to_bytes_2_signed v of
        Inl e \<Rightarrow> Inl e
      | Inr vals \<Rightarrow>
          (case calcCRC register vals 2 of
             Inl e \<Rightarrow> Inl e
           | Inr crc \<Rightarrow>
               (case py_index vals 0 of
                  Inl e \<Rightarrow> Inl e
                | Inr v0 \<Rightarrow>
                    (case py_index vals 1 of
                       Inl e \<Rightarrow> Inl e
                     | Inr v1 \<Rightarrow> Inr [v0, v1, crc]))))"

definition set_8bit_try ::
  "'d transport \<Rightarrow> attiny \<Rightarrow> int \<Rightarrow> int \<Rightarrow> int list \<Rightarrow> 'd world \<Rightarrow> (exn + bool option) \<times> 'd world" where
  "set_8bit_try T A register v arg_list w =
     (case write_block T A register arg_list w of
        (Some e, w1) \<Rightarrow> (Inl e, w1)
      | (None, w1) \<Rightarrow>
          (case get_8bit_value T A register (close w1) of
             (Inl e, w2) \<Rightarrow> (Inl e, w2)
           | (Inr got, w2) \<Rightarrow> (if got = v then (Inr (Some True), w2) else (Inr None, w2))))"

definition set_8bit_value ::
  "'d transport \<Rightarrow> attiny \<Rightarrow> int \<Rightarrow> int \<Rightarrow> 'd world \<Rightarrow> (exn + bool) \<times> 'd world" where
  "set_8bit_value T A register v w =
     returning False (retries T A (set_8bit_try T A register v (arg_list_8bit register v)) w)"

definition set_16bit_try ::
  "'d transport \<Rightarrow> attiny \<Rightarrow> int \<Rightarrow> int \<Rightarrow> int list \<Rightarrow> 'd world \<Rightarrow> (exn + bool option) \<times> 'd world" where
  "set_16bit_try T A register v arg_list w =
     (case write_block T A register arg_list w of
        (Some e, w1) \<Rightarrow> (Inl e, w1)
      | (None, w1) \<Rightarrow>
          (case get_16bit_value T A register (close w1) of
             (Inl e, w2) \<Rightarrow> (Inl e, w2)
           | (Inr got, w2) \<Rightarrow> (if got = v then (Inr (Some True), w2) else (Inr None, w2))))"

definition set_16bit_value ::
  "'d transport \<Rightarrow> attiny \<Rightarrow> int \<Rightarrow> int \<Rightarrow> 'd world \<Rightarrow> (exn + bool) \<times> 'd world" where
  "set_16bit_value T A register v w =
     (case arg_list_16bit register v of
        Inl e \<Rightarrow> (Inl e, w)
      | Inr arg_list \<Rightarrow> returning False (retries T A (set_16bit_try T A register v arg_list) w))"

subsection \<open>Bus stubs\<close>

text \<open>
  Concrete buses to run the methods on. \<open>const_bus\<close> has no state: a session always opens,
  every block write answers \<open>wr\<close> and every block read answers \<open>rd\<close>. \<open>loopback\<close> keeps
  the frames written, each element cut to a byte as the library's C code does, and a block
  read of a register answers the first \<open>n\<close> bytes of the last frame written there.
\<close>

definition const_bus :: "exn option \<Rightarrow> exn + int list \<Rightarrow> unit transport" where
  "const_bus wr rd =
     \<lparr>SMBus = (\<lambda>b d. (None, d)),
      write_i2c_block_data = (\<lambda>a r xs d. (wr, d)),
      read_i2c_block_data = (\<lambda>a r n d. (rd, d))\<rparr>"

definition loopback :: "(int \<times> int list) list transport" where
  "loopback =
     \<lparr>SMBus = (\<lambda>b d. (None, d)),
      write_i2c_block_data = (\<lambda>a r xs d. (None, (r, map (\<lambda>x. x mod 256) xs) # d)),
      read_i2c_block_data =
        (\<lambda>a r n d. (case map_of d r of None \<Rightarrow> (Inl OSError, d) | Some xs \<Rightarrow> (Inr (take n xs), d)))\<rparr>"

definition handle :: "int \<Rightarrow> attiny" where
  "handle n = \<lparr>bus_number = 1, address = 0x37, time_const = 0, num_retries = n\<rparr>"

definition start :: "'d \<Rightarrow> 'd world" where
  "start d = \<lparr>device = d, trace = []\<rparr>"

text \<open>The number of block reads in the trace of a world.\<close>

definition reads :: "'d world \<Rightarrow> nat" where
  "reads w = length (filter is_read (trace w))"

text \<open>The frames handed to block writes in a trace, with bus address and register.\<close>

fun frames_written :: "event list \<Rightarrow> (int \<times> int \<times> int list) list" where
  "frames_written [] = []"
| "frames_written (EvWrite a r xs res # tr) = (a, r, xs) # frames_written tr"
| "frames_written (ev # tr) = frames_written tr"

section \<open>The checksum\<close>

lemma and_255_mod: "(x::int) AND 0xFF = x mod 256"
proof -
  have "x AND mask 8 = x mod 2 ^ 8"
    by (simp only: take_bit_eq_mod flip: take_bit_eq_mask)
  then show ?thesis by (simp add: mask_eq_exp_minus_1)
qed

lemma bit7_and_255: "bit ((x::int) AND 0xFF) 7 = bit x 7"
proof -
  have "(0xFF::int) = mask 8" by (simp add: mask_eq_exp_minus_1)
  then show ?thesis by (simp add: bit_and_iff bit_mask_iff)
qed

lemma test_0x80: "(((n::int) XOR crc) AND 0x80 \<noteq> 0) = (bit crc 7 \<noteq> bit n 7)"
proof -
  have "((n XOR crc) AND 2 ^ 7 = 0) = (\<not> bit (n XOR crc) 7)"
    by (rule and_exp_eq_0_iff_not_bit)
  then show ?thesis by (auto simp add: bit_xor_iff)
qed

lemma shift_mask: "push_bit 1 ((crc::int) AND 0xFF) AND 0xFF = push_bit 1 crc AND 0xFF"
  by (simp add: and_255_mod push_bit_eq_mult mod_mult_left_eq mod_mult_right_eq)

lemma shift_xor_mask:
  "(push_bit 1 ((crc::int) AND 0xFF) XOR 0x31) AND 0xFF = (push_bit 1 crc XOR 0x31) AND 0xFF"
proof -
  have "(push_bit 1 (crc AND 0xFF) XOR 0x31) AND 0xFF
      = (push_bit 1 (crc AND 0xFF) AND 0xFF) XOR (0x31 AND 0xFF)"
    by (rule bit.conj_xor_distrib2)
  also have "\<dots> = (push_bit 1 crc AND 0xFF) XOR (0x31 AND 0xFF)"
    by (simp only: shift_mask)
  also have "\<dots> = (push_bit 1 crc XOR 0x31) AND 0xFF"
    by (rule bit.conj_xor_distrib2 [symmetric])
  finally show ?thesis .
qed

lemma bit_step_mask:
  "spec_bit_step (crc AND 0xFF, n) =
     ((if (n XOR crc) AND 0x80 \<noteq> 0 then push_bit 1 crc XOR POLYNOME else push_bit 1 crc) AND 0xFF,
      push_bit 1 n)"
  unfolding spec_bit_step_def Let_def POLYNOME_def fst_conv snd_conv bit7_and_255 test_0x80
  using shift_mask [of crc] shift_xor_mask [of crc] by simp

lemma steps_mask:
  "(spec_bit_step ^^ k) (crc AND 0xFF, n) = (addCrc_loop k crc n AND 0xFF, push_bit k n)"
proof (induction k arbitrary: crc n)
  case 0
  show ?case by simp
next
  case (Suc k)
  show ?case
    by (simp only: funpow_Suc_right o_apply bit_step_mask Suc.IH addCrc_loop.simps)
       (simp add: push_bit_eq_mult)
qed

lemma spec_fold_byte_addCrc: "spec_fold_byte (crc AND 0xFF) n = addCrc crc n"
  by (simp add: spec_fold_byte_def steps_mask addCrc_def)

lemma addCrc_masked: "addCrc crc n AND 0xFF = addCrc crc n"
  by (simp add: addCrc_def)

lemma addCrc_byte: "0 \<le> addCrc crc n \<and> addCrc crc n \<le> 255"
  by (simp add: addCrc_def and_255_mod) 

lemma foldl_spec_addCrc:
  "foldl spec_fold_byte (addCrc crc n) p = foldl addCrc (addCrc crc n) p"
proof (induction p arbitrary: crc n)
  case Nil
  show ?case by simp
next
  case (Cons b p)
  have "spec_fold_byte (addCrc crc n) b = addCrc (addCrc crc n) b"
    using spec_fold_byte_addCrc [of "addCrc crc n" b] by (simp only: addCrc_masked)
  then show ?case by (simp add: Cons.IH)
qed

lemma calcCRC_loop_foldl:
  "elem + k \<le> length read \<Longrightarrow>
   calcCRC_loop crc read elem k = Inr (foldl addCrc crc (take k (drop elem read)))"
proof (induction k arbitrary: crc elem)
  case 0
  show ?case by simp
next
  case (Suc k)
  then have lt: "elem < length read" by simp
  then have d: "drop elem read = read ! elem # drop (Suc elem) read"
    by (simp add: Cons_nth_drop_Suc)
  from Suc.prems have "Suc elem + k \<le> length read" by simp
  from Suc.IH [OF this] lt show ?case
    by (simp add: py_index_def d)
qed

lemma calcCRC_foldl:
  "len \<le> length read \<Longrightarrow> calcCRC register read len = Inr (foldl addCrc (addCrc 0 register) (take len read))"
  by (simp add: calcCRC_def calcCRC_loop_foldl)

text \<open>
  C1. For every register address \<open>a\<close> and every payload \<open>p\<close>, \<^verbatim>\<open>calcCRC(a, p, len(p))\<close>
  returns the bit-serial CRC-8 of the specification: accumulator 0, the address folded in
  first and then the payload bytes in order, each byte in 8 steps from the top bit down,
  a step shifting the accumulator left and XORing it with \<open>0x31\<close> exactly when the top bits
  of accumulator and input differ, the accumulator reduced to 8 bits at every step and the
  input shifted without a mask. The result is one byte. This holds for all integers, so
  for all bytes.
\<close>

theorem calcCRC_is_spec_crc8:
  "calcCRC a p (length p) = Inr (spec_crc8 a p) \<and> 0 \<le> spec_crc8 a p \<and> spec_crc8 a p \<le> 255"
proof -
  have z: "spec_fold_byte 0 a = addCrc 0 a"
    using spec_fold_byte_addCrc [of 0 a] by simp
  have s: "spec_crc8 a p = foldl addCrc (addCrc 0 a) p"
    by (simp add: spec_crc8_def z foldl_spec_addCrc)
  have b: "0 \<le> foldl addCrc (addCrc 0 a) p \<and> foldl addCrc (addCrc 0 a) p \<le> 255"
    by (induction p rule: rev_induct) (simp_all add: addCrc_byte)
  show ?thesis
    using b by (simp add: s calcCRC_foldl)
qed


section \<open>The retry loop\<close>

lemma sleep_returns: "0 \<le> time_const A \<Longrightarrow> sleep A w = (None, slept A w)"
  by (simp add: sleep_def)

lemma sleep_cases:
  "sleep A w = (Some ValueError, w) \<or> sleep A w = (None, slept A w)"
  by (simp add: sleep_def)

lemma attempts_returns:
  "attempts T A body k w = (Inr (Some v), w') \<Longrightarrow> \<exists>w0. body w0 = (Inr (Some v), w')"
proof (induction k arbitrary: w)
  case 0
  then show ?case by simp
next
  case (Suc k)
  then show ?case
    by (auto split: prod.splits option.splits sum.splits)
qed

lemma retries_returns:
  "retries T A body w = (Inr (Some v), w') \<Longrightarrow> \<exists>w0. body w0 = (Inr (Some v), w')"
  by (auto simp add: retries_def split: prod.splits option.splits sum.splits if_splits
      dest: attempts_returns)

lemma retries_first:
  assumes "0 < num_retries A"
    and "open_bus T A w = (None, w1)"
    and "body (slept A w1) = (Inr (Some v), w2)"
    and "0 \<le> time_const A"
  shows "retries T A body w = (Inr (Some v), w2)"
proof -
  from assms(1) obtain k where k: "nat (num_retries A) = Suc k"
    by (cases "nat (num_retries A)") auto
  show ?thesis
    using assms(2,3) by (simp add: retries_def k sleep_returns [OF assms(4)])
qed

lemma retries_negative_delay:
  assumes "0 < num_retries A"
    and "time_const A < 0"
    and "open_bus T A w = (None, w1)"
  shows "retries T A body w = (Inl ValueError, w1)"
proof -
  from assms(1) obtain k where k: "nat (num_retries A) = Suc k"
    by (cases "nat (num_retries A)") auto
  show ?thesis
    using assms(2,3) by (simp add: retries_def k sleep_def)
qed

lemma calcCRC_2: "calcCRC r (b0 # b1 # bs) 2 = Inr (addCrc (addCrc (addCrc 0 r) b0) b1)"
  by (simp add: calcCRC_def py_index_def eval_nat_numeral)

lemma calcCRC_1: "calcCRC r (b0 # bs) (Suc 0) = Inr (addCrc (addCrc 0 r) b0)"
  by (simp add: calcCRC_def py_index_def)

lemma calcCRC_4:
  "calcCRC r (b0 # b1 # b2 # b3 # bs) 4 = Inr (addCrc (addCrc (addCrc (addCrc (addCrc 0 r) b0) b1) b2) b3)"
  by (simp add: calcCRC_def py_index_def eval_nat_numeral)

lemma attempts_all_fall_through:
  assumes "\<And>w. \<exists>w1. open_bus T A w = (None, w1) \<and> reads w1 = reads w"
    and "\<And>w. \<exists>w2. body (slept A w) = (Inr None, w2) \<and> reads w2 = Suc (reads w)"
    and "0 \<le> time_const A"
  shows "\<exists>w'. attempts T A body k w = (Inr None, w') \<and> reads w' = reads w + k"
proof (induction k arbitrary: w)
  case 0
  show ?case by simp
next
  case (Suc k)
  from assms(1) obtain w1 where w1: "open_bus T A w = (None, w1)" "reads w1 = reads w"
    by blast
  from assms(2) obtain w2 where w2: "body (slept A w1) = (Inr None, w2)" "reads w2 = Suc (reads w1)"
    by blast
  from Suc.IH [of w2] obtain w' where w': "attempts T A body k w2 = (Inr None, w')"
    "reads w' = reads w2 + k"
    by blast
  show ?case
    using w1 w2 w' by (simp add: sleep_returns [OF assms(3)])
qed

section \<open>Reads\<close>

text \<open>
  C9. If the bus answers the block read of register \<open>0x11\<close> with the bytes
  \<open>[0x34, 0x12]\<close> followed by \<^verbatim>\<open>calcCRC(0x11, [0x34, 0x12], 2)\<close>, then
  \<^verbatim>\<open>get_16bit_value(0x11)\<close> returns \<open>0x1234 = 4660\<close> on that attempt. First, the body
  of whichever attempt gets that answer closes the session and returns 4660 from the
  method. Second, when the first attempt gets it (the handle has at least one retry and
  a delay that is not negative, and the session opens), the call returns 4660 after one
  session opened, one block read and one close.
\<close>

theorem get_16bit_value_battery_scenario:
  assumes crc: "calcCRC 0x11 [0x34, 0x12] 2 = Inr c"
  shows "(read_i2c_block_data T (address A) 0x11 3 (device w0) = (Inr [0x34, 0x12, c], d0) \<longrightarrow>
            get_16bit_try T A 0x11 w0 =
              (Inr (Some 4660),
               \<lparr>device = d0,
                trace = trace w0 @ [EvRead (address A) 0x11 3 (Inr [0x34, 0x12, c]), EvClose]\<rparr>))
       \<and> (0 < num_retries A \<and> 0 \<le> time_const A
            \<and> SMBus T (bus_number A) (device w) = (None, d1)
            \<and> read_i2c_block_data T (address A) 0x11 3 d1 = (Inr [0x34, 0x12, c], d2) \<longrightarrow>
            get_16bit_value T A 0x11 w =
              (Inr 4660,
               \<lparr>device = d2,
                trace = trace w @ [EvOpen (bus_number A), EvSleep (time_const A),
                                   EvRead (address A) 0x11 3 (Inr [0x34, 0x12, c]), EvClose]\<rparr>))"
proof -
  have v: "from_bytes True (take 2 [0x34, 0x12, c]) = Inr 4660"
    by (simp add: from_bytes_def is_byte_def)
  have m: "crc_matches 0x11 [0x34, 0x12, c] 2 = Inr True"
    using crc by (simp add: crc_matches_def py_index_def calcCRC_2)
  have body: "get_16bit_try T A 0x11 u =
      (Inr (Some 4660),
       \<lparr>device = d, trace = trace u @ [EvRead (address A) 0x11 3 (Inr [0x34, 0x12, c]), EvClose]\<rparr>)"
    if "read_i2c_block_data T (address A) 0x11 3 (device u) = (Inr [0x34, 0x12, c], d)"
    for u :: "'a world" and d
    using that v m by (simp add: get_16bit_try_def read_block_def close_def)
  have call: "get_16bit_value T A 0x11 w =
      (Inr 4660,
       \<lparr>device = d2,
        trace = trace w @ [EvOpen (bus_number A), EvSleep (time_const A),
                           EvRead (address A) 0x11 3 (Inr [0x34, 0x12, c]), EvClose]\<rparr>)"
    if n: "0 < num_retries A"
      and tc: "0 \<le> time_const A"
      and op: "SMBus T (bus_number A) (device w) = (None, d1)"
      and rd: "read_i2c_block_data T (address A) 0x11 3 d1 = (Inr [0x34, 0x12, c], d2)"
  proof -
    let ?w1 = "w\<lparr>device := d1, trace := trace w @ [EvOpen (bus_number A)]\<rparr>"
    have o: "open_bus T A w = (None, ?w1)"
      using op by (simp add: open_bus_def)
    have b: "get_16bit_try T A 0x11 (slept A ?w1) =
        (Inr (Some 4660),
         \<lparr>device = d2,
          trace = trace w @ [EvOpen (bus_number A), EvSleep (time_const A),
                             EvRead (address A) 0x11 3 (Inr [0x34, 0x12, c]), EvClose]\<rparr>)"
      using body [of "slept A ?w1" d2] rd by (simp add: slept_def)
    show ?thesis
      using retries_first [where body = "get_16bit_try T A 0x11", OF n o b tc]
      by (simp add: get_16bit_value_def get_16bit_value_ret_def returning_def)
  qed
  from body [of w0 d0] call show ?thesis
    by blast
qed

theorem get_16bit_value_battery_scenario_witness:
  "get_16bit_value (const_bus None (Inr [0x34, 0x12, 242])) (handle 3) 0x11 (start ()) =
     (Inr 4660,
      \<lparr>device = (), trace = [EvOpen 1, EvSleep 0, EvRead 0x37 0x11 3 (Inr [0x34, 0x12, 242]), EvClose]\<rparr>)
   \<and> get_16bit_try (const_bus None (Inr [0x34, 0x12, 242])) (handle 3) 0x11 (start ()) =
     (Inr (Some 4660),
      \<lparr>device = (), trace = [EvRead 0x37 0x11 3 (Inr [0x34, 0x12, 242]), EvClose]\<rparr>)
   \<and> calcCRC 0x11 [0x34, 0x12] 2 = Inr 242"
proof -
  have c: "calcCRC 0x11 [0x34, 0x12] 2 = Inr 242"
    by code_simp
  show ?thesis
    using c get_16bit_value_battery_scenario [OF c, where T = "const_bus None (Inr [0x34, 0x12, 242])"
        and A = "handle 3" and w = "start ()" and ?w0.0 = "start ()" and ?d0.0 = "()"
        and ?d1.0 = "()" and ?d2.0 = "()"]
    by (simp add: handle_def const_bus_def start_def)
qed

text \<open>
  C10. When the bus answers the block read of the version register \<open>0x80\<close> with
  \<open>[b0, b1, b2, b3, c]\<close> and \<open>c\<close> is the checksum over \<open>[0x80, b0, b1, b2, b3]\<close>,
  \<^verbatim>\<open>get_version\<close> returns \<open>(major, minor, patch) = (b2, b1, b0)\<close>: the patch byte comes
  first on the wire, and \<open>b3\<close> is folded into the checksum (last) but is not in the result.
  The body of whichever attempt gets that answer returns the triplet from the method, and
  so does the call when its first attempt gets it (the handle has at least one retry and a
  delay that is not negative, and the session opens).
\<close>

theorem get_version_triplet:
  assumes crc: "calcCRC 0x80 [b0, b1, b2, b3] 4 = Inr c"
  shows "(read_i2c_block_data T (address A) 0x80 5 (device w0) = (Inr [b0, b1, b2, b3, c], d0) \<longrightarrow>
            get_version_try T A w0 =
              (Inr (Some (b2, b1, b0)),
               \<lparr>device = d0,
                trace = trace w0 @ [EvRead (address A) 0x80 5 (Inr [b0, b1, b2, b3, c]), EvClose]\<rparr>))
       \<and> (0 < num_retries A \<and> 0 \<le> time_const A
            \<and> SMBus T (bus_number A) (device w) = (None, d1)
            \<and> read_i2c_block_data T (address A) 0x80 5 d1 = (Inr [b0, b1, b2, b3, c], d2) \<longrightarrow>
            get_version T A w =
              (Inr (b2, b1, b0),
               \<lparr>device = d2,
                trace = trace w @ [EvOpen (bus_number A), EvSleep (time_const A),
                                   EvRead (address A) 0x80 5 (Inr [b0, b1, b2, b3, c]), EvClose]\<rparr>))
       \<and> c = addCrc (addCrc (addCrc (addCrc (addCrc 0 0x80) b0) b1) b2) b3"
proof -
  have c: "c = addCrc (addCrc (addCrc (addCrc (addCrc 0 0x80) b0) b1) b2) b3"
    using crc by (simp add: calcCRC_4)
  have m: "crc_matches 0x80 [b0, b1, b2, b3, c] 4 = Inr True"
    using c by (simp add: crc_matches_def py_index_def calcCRC_4)
  have body: "get_version_try T A u =
      (Inr (Some (b2, b1, b0)),
       \<lparr>device = d, trace = trace u @ [EvRead (address A) 0x80 5 (Inr [b0, b1, b2, b3, c]), EvClose]\<rparr>)"
    if "read_i2c_block_data T (address A) 0x80 5 (device u) = (Inr [b0, b1, b2, b3, c], d)"
    for u :: "'a world" and d
    using that m
    by (simp add: get_version_try_def REG_VERSION_def read_block_def close_def py_index_def)
  have call: "get_version T A w =
      (Inr (b2, b1, b0),
       \<lparr>device = d2,
        trace = trace w @ [EvOpen (bus_number A), EvSleep (time_const A),
                           EvRead (address A) 0x80 5 (Inr [b0, b1, b2, b3, c]), EvClose]\<rparr>)"
    if n: "0 < num_retries A"
      and tc: "0 \<le> time_const A"
      and op: "SMBus T (bus_number A) (device w) = (None, d1)"
      and rd: "read_i2c_block_data T (address A) 0x80 5 d1 = (Inr [b0, b1, b2, b3, c], d2)"
  proof -
    let ?w1 = "w\<lparr>device := d1, trace := trace w @ [EvOpen (bus_number A)]\<rparr>"
    have o: "open_bus T A w = (None, ?w1)"
      using op by (simp add: open_bus_def)
    have b: "get_version_try T A (slept A ?w1) =
        (Inr (Some (b2, b1, b0)),
         \<lparr>device = d2,
          trace = trace w @ [EvOpen (bus_number A), EvSleep (time_const A),
                             EvRead (address A) 0x80 5 (Inr [b0, b1, b2, b3, c]), EvClose]\<rparr>)"
      using body [of "slept A ?w1" d2] rd by (simp add: slept_def)
    show ?thesis
      using retries_first [where body = "get_version_try T A", OF n o b tc]
      by (simp add: get_version_def get_version_ret_def returning_def)
  qed
  from body [of w0 d0] call c show ?thesis
    by blast
qed

theorem get_version_triplet_witness:
  "get_version (const_bus None (Inr [3, 2, 1, 0, 87])) (handle 1) (start ()) =
     (Inr (1, 2, 3),
      \<lparr>device = (), trace = [EvOpen 1, EvSleep 0, EvRead 0x37 0x80 5 (Inr [3, 2, 1, 0, 87]), EvClose]\<rparr>)
   \<and> get_version_try (const_bus None (Inr [3, 2, 1, 0, 87])) (handle 1) (start ()) =
     (Inr (Some (1, 2, 3)),
      \<lparr>device = (), trace = [EvRead 0x37 0x80 5 (Inr [3, 2, 1, 0, 87]), EvClose]\<rparr>)
   \<and> calcCRC 0x80 [3, 2, 1, 0] 4 = Inr 87"
proof -
  have c: "calcCRC 0x80 [3, 2, 1, 0] 4 = Inr 87"
    by code_simp
  show ?thesis
    using c get_version_triplet [OF c, where T = "const_bus None (Inr [3, 2, 1, 0, 87])"
        and A = "handle 1" and w = "start ()" and ?w0.0 = "start ()" and ?d0.0 = "()"
        and ?d1.0 = "()" and ?d2.0 = "()"]
    by (simp add: handle_def const_bus_def start_def)
qed

text \<open>
  C6. If every session opens and the bus answers every block read of the register with a
  two-byte frame whose second byte is not the checksum of the register address and the
  first byte, then \<^verbatim>\<open>get_8bit_value\<close> makes exactly \<^verbatim>\<open>_num_retries\<close> block reads and
  returns the failure marker \<open>0xFFFF\<close>. The handle has at least one retry, as the
  configuration requires, and a delay that is not negative, so that \<^verbatim>\<open>time.sleep\<close>
  returns.
\<close>

theorem get_8bit_value_retry_exhaustion:
  assumes "0 < num_retries A"
    and "\<And>d. \<exists>d'. SMBus T (bus_number A) d = (None, d')"
    and "\<And>d. \<exists>frame d'. read_i2c_block_data T (address A) register 2 d = (Inr frame, d')
            \<and> length frame = 2 \<and> calcCRC register frame 1 \<noteq> Inr (frame ! 1)"
    and "0 \<le> time_const A"
  shows "fst (get_8bit_value T A register w) = Inr marker_8bit
       \<and> length (filter is_read (trace (snd (get_8bit_value T A register w))))
           = length (filter is_read (trace w)) + nat (num_retries A)"
proof -
  have o: "\<exists>w1. open_bus T A w = (None, w1) \<and> reads w1 = reads w" for w :: "'a world"
  proof -
    from assms(2) obtain d' where "SMBus T (bus_number A) (device w) = (None, d')"
      by blast
    then show ?thesis by (simp add: open_bus_def reads_def)
  qed
  have b: "\<exists>w2. get_8bit_try T A register (slept A w) = (Inr None, w2) \<and> reads w2 = Suc (reads w)"
    for w :: "'a world"
  proof -
    from assms(3) obtain frame d' where
      f: "read_i2c_block_data T (address A) register 2 (device w) = (Inr frame, d')"
        "length frame = 2" "calcCRC register frame 1 \<noteq> Inr (frame ! 1)"
      by blast
    from f(2) obtain x y where xy: "frame = [x, y]"
      by (cases frame; cases "tl frame") auto
    have m: "crc_matches register frame 1 = Inr False"
      using f(3) by (simp add: xy crc_matches_def py_index_def calcCRC_1)
    show ?thesis
      using f(1,2) m
      by (simp add: get_8bit_try_def read_block_def slept_def close_def py_index_def reads_def)
  qed
  from attempts_all_fall_through [where body = "get_8bit_try T A register", OF o b assms(4)]
  obtain w' where w': "attempts T A (get_8bit_try T A register) (nat (num_retries A)) w = (Inr None, w')"
    "reads w' = reads w + nat (num_retries A)"
    by blast
  show ?thesis
    using w' assms(1)
    by (simp add: get_8bit_value_def get_8bit_value_ret_def retries_def returning_def reads_def)
qed

theorem get_8bit_value_retry_exhaustion_witness:
  "fst (get_8bit_value (const_bus None (Inr [5, 0])) (handle 3) 0x21 (start ())) = Inr 0xFFFF
   \<and> length (filter is_read (trace (snd (get_8bit_value (const_bus None (Inr [5, 0])) (handle 3) 0x21 (start ()))))) = 3
   \<and> calcCRC 0x21 [5, 0] 1 = Inr 221"
proof -
  have c: "calcCRC 0x21 [5, 0] 1 = Inr 221"
    by code_simp
  show ?thesis
    using c get_8bit_value_retry_exhaustion [of "handle 3" "const_bus None (Inr [5, 0])" "0x21" "start ()"]
    by (simp add: handle_def const_bus_def start_def marker_8bit_def)
qed


section \<open>The value codec\<close>

lemma two_bytes_mod: "(v::int) mod 256 + 256 * (v div 256 mod 256) = v mod 65536"
proof -
  have "v mod (256 * 256) = 256 * (v div 256 mod 256) + v mod 256"
    by (rule zmod_zmult2_eq) simp
  then show ?thesis by simp
qed

lemma is_byte_mod: "is_byte (x mod 256)"
proof -
  have "x mod 256 < 256" by simp
  then have "x mod 256 \<le> 255" by linarith
  then show ?thesis by (simp add: is_byte_def)
qed

lemma le_value_two: "le_value [a, b] = a + 256 * b"
  by simp

lemma from_bytes_to_bytes:
  assumes "- 32768 \<le> v" "v \<le> 32767"
  shows "from_bytes True [v mod 256, v div 256 mod 256] = Inr v"
proof -
  have bs: "list_all is_byte [v mod 256, v div 256 mod 256]"
    by (simp add: is_byte_mod)
  have u: "le_value [v mod 256, v div 256 mod 256] = v mod 65536"
    by (simp only: le_value_two two_bytes_mod)
  have r: "(if 32768 \<le> v mod 65536 then v mod 65536 - 65536 else v mod 65536) = v"
  proof (cases "0 \<le> v")
    case True
    with assms have "v mod 65536 = v" by simp
    with assms show ?thesis by simp
  next
    case False
    have "(v + 65536) mod 65536 = v + 65536"
      by (rule mod_pos_pos_trivial) (use False assms in simp_all)
    moreover have "(v + 65536) mod 65536 = v mod 65536"
      by simp
    ultimately have "v mod 65536 = v + 65536" by (simp only:)
    with False assms show ?thesis by simp
  qed
  have "from_bytes True [v mod 256, v div 256 mod 256] =
          Inr (if 32768 \<le> v mod 65536 then v mod 65536 - 65536 else v mod 65536)"
    unfolding from_bytes_def Let_def u using bs by simp
  then show ?thesis by (simp only: r)
qed

lemma arg_list_16bit_in_range:
  assumes "- 32768 \<le> v" "v \<le> 32767"
  shows "arg_list_16bit register v =
           Inr [v mod 256, v div 256 mod 256,
                addCrc (addCrc (addCrc 0 register) (v mod 256)) (v div 256 mod 256)]"
  using assms by (simp add: arg_list_16bit_def to_bytes_2_signed_def py_index_def calcCRC_2)

text \<open>
  C7. The value codec round-trips. For every \<open>v\<close> in \<open>[-32768, 32767]\<close> the 16-bit write
  encodes \<open>v\<close> as two little-endian bytes \<open>[lo, hi]\<close>, puts them first in its frame, and
  the decoding of the 16-bit read (\<^verbatim>\<open>int.from_bytes\<close> of the first two bytes of a frame,
  signed) gives \<open>v\<close> again. The 8-bit write puts the value in its frame as it is and the
  8-bit read takes the first element of the frame, so every 8-bit value (every integer, in
  fact) comes back unchanged.
\<close>

theorem codec_round_trip:
  "(- 32768 \<le> v \<and> v \<le> 32767 \<longrightarrow>
      (\<exists>lo hi crc. to_bytes_2_signed v = Inr [lo, hi]
         \<and> arg_list_16bit register v = Inr [lo, hi, crc]
         \<and> from_bytes True (take 2 [lo, hi, crc]) = Inr v))
   \<and> py_index (arg_list_8bit register b) 0 = Inr b"
proof -
  have "from_bytes True (take 2 [v mod 256, v div 256 mod 256, c]) = Inr v"
    if "- 32768 \<le> v" "v \<le> 32767" for c
    using from_bytes_to_bytes [OF that] by simp
  then show ?thesis
    by (simp add: arg_list_16bit_in_range to_bytes_2_signed_def arg_list_8bit_def py_index_def
        Let_def)
qed

theorem codec_round_trip_witness:
  "to_bytes_2_signed (- 2) = Inr [254, 255]
   \<and> arg_list_16bit 0x31 (- 2) = Inr [254, 255, 66]
   \<and> from_bytes True (take 2 [254, 255, 66]) = Inr (- 2)
   \<and> py_index (arg_list_8bit 0x31 30) 0 = Inr 30"
proof -
  have a: "arg_list_16bit 0x31 (- 2) = Inr [254, 255, 66]"
    by code_simp
  show ?thesis
    using a codec_round_trip [where v = "- 2" and register = "0x31" and b = 30]
    by (simp add: to_bytes_2_signed_def)
qed

section \<open>What a read returns\<close>

lemma le_value_bounds:
  "list_all is_byte bs \<Longrightarrow> 0 \<le> le_value bs \<and> le_value bs < 256 ^ length bs"
proof (induction bs)
  case Nil
  show ?case by simp
next
  case (Cons b bs)
  then have b: "0 \<le> b" "b \<le> 255" and ih: "0 \<le> le_value bs" "le_value bs < 256 ^ length bs"
    by (simp_all add: is_byte_def)
  from ih(2) have "le_value bs + 1 \<le> 256 ^ length bs" by simp
  then have "256 * (le_value bs + 1) \<le> 256 * 256 ^ length bs" by simp
  with b ih(1) show ?case by simp
qed

lemma from_bytes_unsigned_range:
  assumes "from_bytes False bs = Inr v" and "length bs \<le> 3"
  shows "0 \<le> v \<and> v < 2 ^ 24"
proof -
  from assms(1) have ok: "list_all is_byte bs" and v: "v = le_value bs"
    by (auto simp add: from_bytes_def split: if_splits)
  have "(256::int) ^ length bs \<le> 256 ^ 3"
    using assms(2) by (intro power_increasing) simp_all
  with le_value_bounds [OF ok] show ?thesis
    by (simp add: v)
qed

lemma from_bytes_signed_range:
  assumes "from_bytes True bs = Inr v" and "length bs \<le> 2"
  shows "- 32768 \<le> v \<and> v \<le> 32767"
proof -
  from assms(1) have ok: "list_all is_byte bs"
    by (auto simp add: from_bytes_def split: if_splits)
  from assms(2) consider "bs = []" | a where "bs = [a]" | a b where "bs = [a, b]"
    by (cases bs; cases "tl bs"; cases "tl (tl bs)") auto
  then show ?thesis
  proof cases
    case 1
    with assms(1) show ?thesis by (simp add: from_bytes_def)
  next
    case 2
    with assms(1) ok show ?thesis
      by (auto simp add: from_bytes_def is_byte_def Let_def split: if_splits)
  next
    case 3
    with assms(1) ok show ?thesis
      by (auto simp add: from_bytes_def is_byte_def Let_def split: if_splits)
  qed
qed

lemma get_8bit_try_accepts:
  assumes "get_8bit_try T A r w = (Inr (Some v), w')"
  shows "\<exists>frame d. read_i2c_block_data T (address A) r 2 (device w) = (Inr frame, d)
           \<and> py_index frame 0 = Inr v \<and> crc_matches r frame 1 = Inr True
           \<and> w' = \<lparr>device = d, trace = trace w @ [EvRead (address A) r 2 (Inr frame), EvClose]\<rparr>"
  using assms
  by (auto simp add: get_8bit_try_def read_block_def close_def
      split: prod.splits sum.splits if_splits)

lemma get_16bit_try_accepts:
  assumes "get_16bit_try T A r w = (Inr (Some v), w')"
  shows "\<exists>frame d. read_i2c_block_data T (address A) r 3 (device w) = (Inr frame, d)
           \<and> from_bytes True (take 2 frame) = Inr v \<and> crc_matches r frame 2 = Inr True
           \<and> w' = \<lparr>device = d, trace = trace w @ [EvRead (address A) r 3 (Inr frame), EvClose]\<rparr>"
  using assms
  by (auto simp add: get_16bit_try_def read_block_def close_def
      split: prod.splits sum.splits if_splits)

lemma get_uptime_try_accepts:
  assumes "get_uptime_try T A w = (Inr (Some v), w')"
  shows "\<exists>frame d. read_i2c_block_data T (address A) REG_UPTIME 5 (device w) = (Inr frame, d)
           \<and> from_bytes False (take 3 frame) = Inr v \<and> crc_matches REG_UPTIME frame 4 = Inr True
           \<and> w' = \<lparr>device = d, trace = trace w @ [EvRead (address A) REG_UPTIME 5 (Inr frame), EvClose]\<rparr>"
  using assms
  by (auto simp add: get_uptime_try_def read_block_def close_def
      split: prod.splits sum.splits if_splits)

lemma get_version_try_accepts:
  assumes "get_version_try T A w = (Inr (Some v), w')"
  shows "\<exists>frame d. read_i2c_block_data T (address A) REG_VERSION 5 (device w) = (Inr frame, d)
           \<and> crc_matches REG_VERSION frame 4 = Inr True
           \<and> w' = \<lparr>device = d, trace = trace w @ [EvRead (address A) REG_VERSION 5 (Inr frame), EvClose]\<rparr>"
  using assms
  by (auto simp add: get_version_try_def read_block_def close_def
      split: prod.splits sum.splits if_splits)

text \<open>
  C8. The failure marker of each read lies outside the values the read can decode. A value
  \<^verbatim>\<open>get_8bit_value\<close> returns from an accepted frame is in \<open>[0, 255]\<close> when the bus
  library delivers bytes, as it does, and the marker is \<open>0xFFFF\<close>; a value
  \<^verbatim>\<open>get_16bit_value\<close> decodes is in \<open>[-32768, 32767]\<close> and the marker is
  \<open>0xFFFFFFFF\<close>; a value \<^verbatim>\<open>get_uptime\<close> decodes is in \<open>[0, 2^24 - 1]\<close> and the marker
  is \<open>0xFFFFFFFFFFFF\<close>. So no decoded reading equals the marker of its read.
\<close>

theorem failure_markers_outside_decoded_ranges:
  "((\<forall>a r n d frame d'. read_i2c_block_data T8 a r n d = (Inr frame, d') \<longrightarrow> list_all is_byte frame)
      \<and> get_8bit_value_ret T8 A8 r8 w8 = (Inr (Some v8), w8')
      \<longrightarrow> 0 \<le> v8 \<and> v8 \<le> 255 \<and> v8 \<noteq> marker_8bit)
   \<and> (get_16bit_value_ret T16 A16 r16 w16 = (Inr (Some v16), w16')
      \<longrightarrow> - 32768 \<le> v16 \<and> v16 \<le> 32767 \<and> v16 \<noteq> marker_16bit)
   \<and> (get_uptime_ret Tu Au wu = (Inr (Some vu), wu')
      \<longrightarrow> 0 \<le> vu \<and> vu < 2 ^ 24 \<and> vu \<noteq> marker_uptime)
   \<and> marker_8bit = 0xFFFF \<and> marker_16bit = 0xFFFFFFFF \<and> marker_uptime = 0xFFFFFFFFFFFF"
proof -
  have p8: "0 \<le> v8 \<and> v8 \<le> 255 \<and> v8 \<noteq> marker_8bit"
    if bytes: "\<forall>a r n d frame d'. read_i2c_block_data T8 a r n d = (Inr frame, d') \<longrightarrow> list_all is_byte frame"
      and ret: "get_8bit_value_ret T8 A8 r8 w8 = (Inr (Some v8), w8')"
  proof -
    from ret obtain w0 where "get_8bit_try T8 A8 r8 w0 = (Inr (Some v8), w8')"
      unfolding get_8bit_value_ret_def by (blast dest: retries_returns)
    from get_8bit_try_accepts [OF this] obtain frame d where
      f: "read_i2c_block_data T8 (address A8) r8 2 (device w0) = (Inr frame, d)"
        "py_index frame 0 = Inr v8"
      by blast
    from bytes f(1) have "list_all is_byte frame" by blast
    moreover from f(2) have "v8 \<in> set frame"
      by (auto simp add: py_index_def split: if_splits)
    ultimately have "is_byte v8" by (simp add: list_all_iff)
    then show ?thesis by (simp add: is_byte_def marker_8bit_def)
  qed
  have p16: "- 32768 \<le> v16 \<and> v16 \<le> 32767 \<and> v16 \<noteq> marker_16bit"
    if ret: "get_16bit_value_ret T16 A16 r16 w16 = (Inr (Some v16), w16')"
  proof -
    from ret obtain w0 where "get_16bit_try T16 A16 r16 w0 = (Inr (Some v16), w16')"
      unfolding get_16bit_value_ret_def by (blast dest: retries_returns)
    from get_16bit_try_accepts [OF this] obtain frame where
      "from_bytes True (take 2 frame) = Inr v16"
      by blast
    from from_bytes_signed_range [OF this] show ?thesis
      by (simp add: marker_16bit_def)
  qed
  have pu: "0 \<le> vu \<and> vu < 2 ^ 24 \<and> vu \<noteq> marker_uptime"
    if ret: "get_uptime_ret Tu Au wu = (Inr (Some vu), wu')"
  proof -
    from ret obtain w0 where "get_uptime_try Tu Au w0 = (Inr (Some vu), wu')"
      unfolding get_uptime_ret_def by (blast dest: retries_returns)
    from get_uptime_try_accepts [OF this] obtain frame where
      "from_bytes False (take 3 frame) = Inr vu"
      by blast
    from from_bytes_unsigned_range [OF this] show ?thesis
      by (simp add: marker_uptime_def)
  qed
  from p8 p16 pu show ?thesis
    by (simp add: marker_8bit_def marker_16bit_def marker_uptime_def)
qed


theorem failure_markers_outside_decoded_ranges_witness:
  "get_8bit_value_ret (const_bus None (Inr [30, 116])) (handle 1) 0x21 (start ()) =
     (Inr (Some 30), \<lparr>device = (), trace = [EvOpen 1, EvSleep 0, EvRead 0x37 0x21 2 (Inr [30, 116]), EvClose]\<rparr>)
   \<and> list_all is_byte [30, 116] \<and> 30 \<noteq> marker_8bit
   \<and> get_16bit_value_ret (const_bus None (Inr [254, 255, 66])) (handle 1) 0x31 (start ()) =
     (Inr (Some (- 2)), \<lparr>device = (), trace = [EvOpen 1, EvSleep 0, EvRead 0x37 0x31 3 (Inr [254, 255, 66]), EvClose]\<rparr>)
   \<and> - 2 \<noteq> marker_16bit
   \<and> get_uptime_ret (const_bus None (Inr [3, 2, 1, 0, 155])) (handle 1) (start ()) =
     (Inr (Some 66051), \<lparr>device = (), trace = [EvOpen 1, EvSleep 0, EvRead 0x37 0x85 5 (Inr [3, 2, 1, 0, 155]), EvClose]\<rparr>)
   \<and> 66051 \<noteq> marker_uptime"
proof -
  have r8: "get_8bit_value_ret (const_bus None (Inr [30, 116])) (handle 1) 0x21 (start ()) =
     (Inr (Some 30), \<lparr>device = (), trace = [EvOpen 1, EvSleep 0, EvRead 0x37 0x21 2 (Inr [30, 116]), EvClose]\<rparr>)"
    by code_simp
  have r16: "get_16bit_value_ret (const_bus None (Inr [254, 255, 66])) (handle 1) 0x31 (start ()) =
     (Inr (Some (- 2)), \<lparr>device = (), trace = [EvOpen 1, EvSleep 0, EvRead 0x37 0x31 3 (Inr [254, 255, 66]), EvClose]\<rparr>)"
    by code_simp
  have ru: "get_uptime_ret (const_bus None (Inr [3, 2, 1, 0, 155])) (handle 1) (start ()) =
     (Inr (Some 66051), \<lparr>device = (), trace = [EvOpen 1, EvSleep 0, EvRead 0x37 0x85 5 (Inr [3, 2, 1, 0, 155]), EvClose]\<rparr>)"
    by code_simp
  have b: "\<forall>a r n d frame d'.
      read_i2c_block_data (const_bus None (Inr [30, 116])) a r n d = (Inr frame, d') \<longrightarrow> list_all is_byte frame"
    by (auto simp add: const_bus_def is_byte_def)
  show ?thesis
    using b r8 r16 ru
      failure_markers_outside_decoded_ranges [where ?T8.0 = "const_bus None (Inr [30, 116])"
        and ?A8.0 = "handle 1" and ?r8.0 = "0x21" and ?w8.0 = "start ()" and ?v8.0 = 30
        and ?T16.0 = "const_bus None (Inr [254, 255, 66])" and ?A16.0 = "handle 1"
        and ?r16.0 = "0x31" and ?w16.0 = "start ()" and ?v16.0 = "- 2"
        and Tu = "const_bus None (Inr [3, 2, 1, 0, 155])" and Au = "handle 1"
        and wu = "start ()" and vu = 66051
        and ?w8' = "\<lparr>device = (), trace = [EvOpen 1, EvSleep 0, EvRead 0x37 0x21 2 (Inr [30, 116]), EvClose]\<rparr>"
        and ?w16' = "\<lparr>device = (), trace = [EvOpen 1, EvSleep 0, EvRead 0x37 0x31 3 (Inr [254, 255, 66]), EvClose]\<rparr>"
        and ?wu' = "\<lparr>device = (), trace = [EvOpen 1, EvSleep 0, EvRead 0x37 0x85 5 (Inr [3, 2, 1, 0, 155]), EvClose]\<rparr>"]
    by (simp add: is_byte_def)
qed


section \<open>Frames on the bus\<close>

lemma frames_written_append:
  "frames_written (tr @ tr') = frames_written tr @ frames_written tr'"
  by (induction tr rule: frames_written.induct) simp_all

lemma snd_returning: "snd (returning m r) = snd r"
  by (simp add: returning_def split: prod.splits sum.splits option.splits)

lemma snd_retries: "snd (retries T A body w) = snd (attempts T A body (nat (num_retries A)) w)"
  by (simp add: retries_def split: prod.splits sum.splits option.splits)

lemma frames_open_bus: "frames_written (trace (snd (open_bus T A w))) = frames_written (trace w)"
  by (simp add: open_bus_def frames_written_append split: prod.splits option.splits)

lemma frames_slept: "frames_written (trace (slept A w)) = frames_written (trace w)"
  by (simp add: slept_def frames_written_append)

lemma frames_close: "frames_written (trace (close w)) = frames_written (trace w)"
  by (simp add: close_def frames_written_append)

lemma frames_read_block:
  "frames_written (trace (snd (read_block T A r n w))) = frames_written (trace w)"
  by (simp add: read_block_def frames_written_append split: prod.splits)

lemma frames_write_block:
  "frames_written (trace (snd (write_block T A r xs w))) = frames_written (trace w) @ [(address A, r, xs)]"
  by (simp add: write_block_def frames_written_append split: prod.splits)

lemma attempts_frames:
  assumes "\<And>w. set (frames_written (trace (snd (body w)))) \<subseteq> set (frames_written (trace w)) \<union> F"
  shows "set (frames_written (trace (snd (attempts T A body k w)))) \<subseteq> set (frames_written (trace w)) \<union> F"
proof (induction k arbitrary: w)
  case 0
  show ?case by simp
next
  case (Suc k)
  obtain res w1 where o: "open_bus T A w = (res, w1)"
    by (cases "open_bus T A w")
  then have f1: "frames_written (trace w1) = frames_written (trace w)"
    using frames_open_bus [of T A w] by simp
  show ?case
  proof (cases res)
    case (Some e)
    with o f1 show ?thesis by simp
  next
    case None
    show ?thesis
    proof (cases "time_const A < 0")
      case True
      with o None f1 show ?thesis by (simp add: sleep_def)
    next
      case False
      then have sl: "sleep A w1 = (None, slept A w1)"
        by (simp add: sleep_def)
      obtain out w2 where b: "body (slept A w1) = (out, w2)"
        by (cases "body (slept A w1)")
      from assms [of "slept A w1"] b f1
      have f2: "set (frames_written (trace w2)) \<subseteq> set (frames_written (trace w)) \<union> F"
        by (simp add: frames_slept)
      show ?thesis
      proof (cases "\<exists>v. out = Inr (Some v)")
        case True
        with o None sl b f2 show ?thesis by auto
      next
        case False
        then have "attempts T A body (Suc k) w = attempts T A body k w2"
          using o None sl b by (auto split: sum.splits option.splits)
        with Suc.IH [of w2] f2 show ?thesis by auto
      qed
    qed
  qed
qed

lemma retries_frames:
  assumes "\<And>w. set (frames_written (trace (snd (body w)))) \<subseteq> set (frames_written (trace w)) \<union> F"
  shows "set (frames_written (trace (snd (retries T A body w)))) \<subseteq> set (frames_written (trace w)) \<union> F"
  unfolding snd_retries using assms by (rule attempts_frames)

lemma get_8bit_try_frames:
  "set (frames_written (trace (snd (get_8bit_try T A r w)))) \<subseteq> set (frames_written (trace w)) \<union> {}"
  using frames_read_block [of T A r 2 w]
  by (auto simp add: get_8bit_try_def frames_close split: prod.splits sum.splits)

lemma get_16bit_try_frames:
  "set (frames_written (trace (snd (get_16bit_try T A r w)))) \<subseteq> set (frames_written (trace w)) \<union> {}"
  using frames_read_block [of T A r 3 w]
  by (auto simp add: get_16bit_try_def frames_close split: prod.splits sum.splits)

lemma get_8bit_value_frames:
  "set (frames_written (trace (snd (get_8bit_value T A r w)))) \<subseteq> set (frames_written (trace w))"
  using retries_frames [where body = "get_8bit_try T A r" and F = "{}", OF get_8bit_try_frames]
  by (simp add: get_8bit_value_def get_8bit_value_ret_def snd_returning)

lemma get_16bit_value_frames:
  "set (frames_written (trace (snd (get_16bit_value T A r w)))) \<subseteq> set (frames_written (trace w))"
  using retries_frames [where body = "get_16bit_try T A r" and F = "{}", OF get_16bit_try_frames]
  by (simp add: get_16bit_value_def get_16bit_value_ret_def snd_returning)

lemma set_8bit_try_frames:
  "set (frames_written (trace (snd (set_8bit_try T A r v xs w))))
     \<subseteq> set (frames_written (trace w)) \<union> {(address A, r, xs)}"
proof -
  obtain res w1 where wb: "write_block T A r xs w = (res, w1)"
    by (cases "write_block T A r xs w")
  then have f1: "frames_written (trace w1) = frames_written (trace w) @ [(address A, r, xs)]"
    using frames_write_block [of T A r xs w] by simp
  show ?thesis
  proof (cases res)
    case (Some e)
    with wb f1 show ?thesis by (simp add: set_8bit_try_def)
  next
    case None
    have "set (frames_written (trace (snd (get_8bit_value T A r (close w1)))))
            \<subseteq> set (frames_written (trace w1))"
      using get_8bit_value_frames [of T A r "close w1"] by (simp add: frames_close)
    with wb None f1 show ?thesis
      by (auto simp add: set_8bit_try_def split: prod.splits sum.splits if_splits)
  qed
qed

lemma set_16bit_try_frames:
  "set (frames_written (trace (snd (set_16bit_try T A r v xs w))))
     \<subseteq> set (frames_written (trace w)) \<union> {(address A, r, xs)}"
proof -
  obtain res w1 where wb: "write_block T A r xs w = (res, w1)"
    by (cases "write_block T A r xs w")
  then have f1: "frames_written (trace w1) = frames_written (trace w) @ [(address A, r, xs)]"
    using frames_write_block [of T A r xs w] by simp
  show ?thesis
  proof (cases res)
    case (Some e)
    with wb f1 show ?thesis by (simp add: set_16bit_try_def)
  next
    case None
    have "set (frames_written (trace (snd (get_16bit_value T A r (close w1)))))
            \<subseteq> set (frames_written (trace w1))"
      using get_16bit_value_frames [of T A r "close w1"] by (simp add: frames_close)
    with wb None f1 show ?thesis
      by (auto simp add: set_16bit_try_def split: prod.splits sum.splits if_splits)
  qed
qed

lemma set_8bit_value_frames:
  "set (frames_written (trace (snd (set_8bit_value T A r v w))))
     \<subseteq> set (frames_written (trace w)) \<union> {(address A, r, arg_list_8bit r v)}"
  using retries_frames [where body = "set_8bit_try T A r v (arg_list_8bit r v)"
      and F = "{(address A, r, arg_list_8bit r v)}", OF set_8bit_try_frames]
  by (simp add: set_8bit_value_def snd_returning)

lemma set_16bit_value_frames:
  assumes "arg_list_16bit r v = Inr xs"
  shows "set (frames_written (trace (snd (set_16bit_value T A r v w))))
     \<subseteq> set (frames_written (trace w)) \<union> {(address A, r, xs)}"
  using retries_frames [where body = "set_16bit_try T A r v xs"
      and F = "{(address A, r, xs)}", OF set_16bit_try_frames] assms
  by (simp add: set_16bit_value_def snd_returning)


lemma prefix_open_bus: "prefix (trace w) (trace (snd (open_bus T A w)))"
  by (simp add: open_bus_def split: prod.splits option.splits)

lemma prefix_read_block: "prefix (trace w) (trace (snd (read_block T A r n w)))"
  by (simp add: read_block_def split: prod.splits)

lemma attempts_prefix:
  assumes "\<And>w. prefix (trace w) (trace (snd (body w)))"
  shows "prefix (trace w) (trace (snd (attempts T A body k w)))"
proof (induction k arbitrary: w)
  case 0
  show ?case by simp
next
  case (Suc k)
  obtain res w1 where o: "open_bus T A w = (res, w1)"
    by (cases "open_bus T A w")
  then have p1: "prefix (trace w) (trace w1)"
    using prefix_open_bus [of w T A] by simp
  show ?case
  proof (cases res)
    case (Some e)
    with o p1 show ?thesis by simp
  next
    case None
    show ?thesis
    proof (cases "time_const A < 0")
      case True
      with o None p1 show ?thesis by (simp add: sleep_def)
    next
      case False
      then have sl: "sleep A w1 = (None, slept A w1)"
        by (simp add: sleep_def)
      obtain out w2 where b: "body (slept A w1) = (out, w2)"
        by (cases "body (slept A w1)")
      have "prefix (trace w1) (trace (slept A w1))"
        by (simp add: slept_def)
      moreover from assms [of "slept A w1"] b have "prefix (trace (slept A w1)) (trace w2)"
        by simp
      ultimately have p2: "prefix (trace w) (trace w2)"
        using p1 by (blast intro: prefix_order.trans)
      show ?thesis
      proof (cases "\<exists>v. out = Inr (Some v)")
        case True
        with o None sl b p2 show ?thesis by auto
      next
        case False
        then have "attempts T A body (Suc k) w = attempts T A body k w2"
          using o None sl b by (auto split: sum.splits option.splits)
        with Suc.IH [of w2] p2 show ?thesis
          by (auto intro: prefix_order.trans)
      qed
    qed
  qed
qed

lemma get_8bit_try_prefix: "prefix (trace w) (trace (snd (get_8bit_try T A r w)))"
  using prefix_read_block [of w T A r 2]
  by (auto simp add: get_8bit_try_def close_def split: prod.splits sum.splits
      intro: prefix_order.trans)

lemma get_8bit_value_prefix: "prefix (trace w) (trace (snd (get_8bit_value T A r w)))"
  using attempts_prefix [where body = "get_8bit_try T A r", OF get_8bit_try_prefix]
  by (simp add: get_8bit_value_def get_8bit_value_ret_def snd_returning snd_retries)

lemma set_8bit_try_after_write:
  assumes "write_block T A r xs w = (res, w1)"
  shows "prefix (trace w1) (trace (snd (set_8bit_try T A r v xs w)))"
proof (cases res)
  case (Some e)
  with assms show ?thesis by (simp add: set_8bit_try_def)
next
  case None
  have "prefix (trace w1) (trace (close w1))"
    by (simp add: close_def)
  with get_8bit_value_prefix [of "close w1" T A r]
  have "prefix (trace w1) (trace (snd (get_8bit_value T A r (close w1))))"
    by (blast intro: prefix_order.trans)
  with assms None show ?thesis
    by (auto simp add: set_8bit_try_def split: prod.splits sum.splits)
qed

lemma set_8bit_try_prefix: "prefix (trace w) (trace (snd (set_8bit_try T A r v xs w)))"
proof -
  obtain res w1 where wb: "write_block T A r xs w = (res, w1)"
    by (cases "write_block T A r xs w")
  then have "prefix (trace w) (trace w1)"
    by (auto simp add: write_block_def split: prod.splits)
  with set_8bit_try_after_write [OF wb, of v] show ?thesis
    by (blast intro: prefix_order.trans)
qed

lemma get_16bit_try_prefix: "prefix (trace w) (trace (snd (get_16bit_try T A r w)))"
  using prefix_read_block [of w T A r 3]
  by (auto simp add: get_16bit_try_def close_def split: prod.splits sum.splits
      intro: prefix_order.trans)

lemma get_16bit_value_prefix: "prefix (trace w) (trace (snd (get_16bit_value T A r w)))"
  using attempts_prefix [where body = "get_16bit_try T A r", OF get_16bit_try_prefix]
  by (simp add: get_16bit_value_def get_16bit_value_ret_def snd_returning snd_retries)

lemma set_16bit_try_prefix: "prefix (trace w) (trace (snd (set_16bit_try T A r v xs w)))"
proof -
  obtain res w1 where wb: "write_block T A r xs w = (res, w1)"
    by (cases "write_block T A r xs w")
  then have p1: "prefix (trace w) (trace w1)"
    by (auto simp add: write_block_def split: prod.splits)
  show ?thesis
  proof (cases res)
    case (Some e)
    with wb p1 show ?thesis by (simp add: set_16bit_try_def)
  next
    case None
    have "prefix (trace w1) (trace (close w1))"
      by (simp add: close_def)
    with get_16bit_value_prefix [of "close w1" T A r] p1
    have "prefix (trace w) (trace (snd (get_16bit_value T A r (close w1))))"
      by (blast intro: prefix_order.trans)
    with wb None show ?thesis
      by (auto simp add: set_16bit_try_def split: prod.splits sum.splits)
  qed
qed

lemma attempts_returns_prefix:
  assumes mono: "\<And>w. prefix (trace w) (trace (snd (body w)))"
    and ret: "attempts T A body k w = (Inr (Some v), w')"
  shows "\<exists>w0. prefix (trace w) (trace w0) \<and> body w0 = (Inr (Some v), w')"
  using ret
proof (induction k arbitrary: w)
  case 0
  then show ?case by simp
next
  case (Suc k)
  obtain res w1 where o: "open_bus T A w = (res, w1)"
    by (cases "open_bus T A w")
  with Suc.prems have res: "res = None"
    by (cases res) auto
  from Suc.prems o res have sl: "sleep A w1 = (None, slept A w1)"
    using sleep_cases [of A w1] by auto
  from o have "prefix (trace w) (trace w1)"
    using prefix_open_bus [of w T A] by simp
  then have p1: "prefix (trace w) (trace (slept A w1))"
    by (auto simp add: slept_def intro: prefix_order.trans)
  obtain out w2 where b: "body (slept A w1) = (out, w2)"
    by (cases "body (slept A w1)")
  show ?case
  proof (cases "\<exists>x. out = Inr (Some x)")
    case True
    with Suc.prems o res sl b have "body (slept A w1) = (Inr (Some v), w')"
      by auto
    with p1 show ?thesis by blast
  next
    case False
    then have "attempts T A body (Suc k) w = attempts T A body k w2"
      using o res sl b by (auto split: sum.splits option.splits)
    with Suc.prems have "attempts T A body k w2 = (Inr (Some v), w')"
      by simp
    from Suc.IH [OF this] obtain w0 where
      w0: "prefix (trace w2) (trace w0)" "body w0 = (Inr (Some v), w')"
      by blast
    from mono [of "slept A w1"] b have "prefix (trace (slept A w1)) (trace w2)"
      by simp
    with p1 w0(1) have "prefix (trace w) (trace w0)"
      by (blast intro: prefix_order.trans)
    with w0(2) show ?thesis by blast
  qed
qed

lemma retries_returns_prefix:
  assumes "\<And>w. prefix (trace w) (trace (snd (body w)))"
    and "retries T A body w = (Inr (Some v), w')"
  shows "\<exists>w0. prefix (trace w) (trace w0) \<and> body w0 = (Inr (Some v), w')"
proof -
  from assms(2) have "attempts T A body (nat (num_retries A)) w = (Inr (Some v), w')"
    by (auto simp add: retries_def split: prod.splits sum.splits option.splits if_splits)
  with assms(1) show ?thesis
    by (rule attempts_returns_prefix)
qed

lemma crc_matches_True:
  "crc_matches r frame n = Inr True \<Longrightarrow> \<exists>c. py_index frame n = Inr c \<and> calcCRC r frame n = Inr c"
  by (auto simp add: crc_matches_def split: sum.splits)

lemma arg_list_8bit_calcCRC:
  "\<exists>crc. calcCRC r [v] 1 = Inr crc \<and> arg_list_8bit r v = [v, crc]"
  by (simp add: arg_list_8bit_def calcCRC_1)

text \<open>
  C2. Every frame a register write hands to the bus is the encoded payload followed by the
  checksum over the register address and the payload: \<^verbatim>\<open>set_8bit_value\<close> writes only
  \<open>[value, calcCRC(register, [value], 1)]\<close> and \<^verbatim>\<open>set_16bit_value\<close> writes only
  \<open>[lo, hi, calcCRC(register, [lo, hi], 2)]\<close>, to the register and the device address of
  the handle, on every attempt. Every read (8-bit, 16-bit, version, uptime) returns a
  decoded value from inside its loop only right after a block read whose frame carries, as
  its last byte, the checksum over the register address and the payload received.
\<close>

theorem frames_carry_checksum:
  "(\<exists>crc. calcCRC r1 [v1] 1 = Inr crc
      \<and> set (frames_written (trace (snd (set_8bit_value T1 A1 r1 v1 w1))))
          \<subseteq> set (frames_written (trace w1)) \<union> {(address A1, r1, [v1, crc])})
   \<and> (- 32768 \<le> v2 \<and> v2 \<le> 32767 \<longrightarrow>
        (\<exists>lo hi crc. to_bytes_2_signed v2 = Inr [lo, hi] \<and> calcCRC r2 [lo, hi] 2 = Inr crc
          \<and> set (frames_written (trace (snd (set_16bit_value T2 A2 r2 v2 w2))))
              \<subseteq> set (frames_written (trace w2)) \<union> {(address A2, r2, [lo, hi, crc])}))
   \<and> (get_8bit_value_ret T3 A3 r3 w3 = (Inr (Some v3), w3') \<longrightarrow>
        (\<exists>pre frame c. trace w3' = pre @ [EvRead (address A3) r3 2 (Inr frame), EvClose]
          \<and> py_index frame 1 = Inr c \<and> calcCRC r3 frame 1 = Inr c))
   \<and> (get_16bit_value_ret T4 A4 r4 w4 = (Inr (Some v4), w4') \<longrightarrow>
        (\<exists>pre frame c. trace w4' = pre @ [EvRead (address A4) r4 3 (Inr frame), EvClose]
          \<and> py_index frame 2 = Inr c \<and> calcCRC r4 frame 2 = Inr c))
   \<and> (get_version_ret T5 A5 w5 = (Inr (Some v5), w5') \<longrightarrow>
        (\<exists>pre frame c. trace w5' = pre @ [EvRead (address A5) REG_VERSION 5 (Inr frame), EvClose]
          \<and> py_index frame 4 = Inr c \<and> calcCRC REG_VERSION frame 4 = Inr c))
   \<and> (get_uptime_ret T6 A6 w6 = (Inr (Some v6), w6') \<longrightarrow>
        (\<exists>pre frame c. trace w6' = pre @ [EvRead (address A6) REG_UPTIME 5 (Inr frame), EvClose]
          \<and> py_index frame 4 = Inr c \<and> calcCRC REG_UPTIME frame 4 = Inr c))"
proof -
  have p1: "\<exists>crc. calcCRC r1 [v1] 1 = Inr crc
      \<and> set (frames_written (trace (snd (set_8bit_value T1 A1 r1 v1 w1))))
          \<subseteq> set (frames_written (trace w1)) \<union> {(address A1, r1, [v1, crc])}"
  proof -
    from arg_list_8bit_calcCRC obtain crc where
      c: "calcCRC r1 [v1] 1 = Inr crc" "arg_list_8bit r1 v1 = [v1, crc]"
      by blast
    from set_8bit_value_frames [of T1 A1 r1 v1 w1] c show ?thesis
      by (intro exI [of _ crc]) simp
  qed
  have p2: "\<exists>lo hi crc. to_bytes_2_signed v2 = Inr [lo, hi] \<and> calcCRC r2 [lo, hi] 2 = Inr crc
          \<and> set (frames_written (trace (snd (set_16bit_value T2 A2 r2 v2 w2))))
              \<subseteq> set (frames_written (trace w2)) \<union> {(address A2, r2, [lo, hi, crc])}"
    if "- 32768 \<le> v2" "v2 \<le> 32767"
  proof -
    let ?lo = "v2 mod 256" and ?hi = "v2 div 256 mod 256"
    let ?crc = "addCrc (addCrc (addCrc 0 r2) ?lo) ?hi"
    have a: "arg_list_16bit r2 v2 = Inr [?lo, ?hi, ?crc]"
      using that by (rule arg_list_16bit_in_range)
    have t: "to_bytes_2_signed v2 = Inr [?lo, ?hi]"
      using that by (simp add: to_bytes_2_signed_def)
    have c: "calcCRC r2 [?lo, ?hi] 2 = Inr ?crc"
      by (rule calcCRC_2)
    from set_16bit_value_frames [OF a, of T2 A2 w2] t c show ?thesis
      by blast
  qed
  have p3: "\<exists>pre frame c. trace w3' = pre @ [EvRead (address A3) r3 2 (Inr frame), EvClose]
          \<and> py_index frame 1 = Inr c \<and> calcCRC r3 frame 1 = Inr c"
    if "get_8bit_value_ret T3 A3 r3 w3 = (Inr (Some v3), w3')"
  proof -
    from that obtain w0 where "get_8bit_try T3 A3 r3 w0 = (Inr (Some v3), w3')"
      unfolding get_8bit_value_ret_def by (blast dest: retries_returns)
    from get_8bit_try_accepts [OF this] obtain frame d where
      f: "crc_matches r3 frame 1 = Inr True"
        "w3' = \<lparr>device = d, trace = trace w0 @ [EvRead (address A3) r3 2 (Inr frame), EvClose]\<rparr>"
      by blast
    from crc_matches_True [OF f(1)] f(2) show ?thesis
      by auto
  qed
  have p4: "\<exists>pre frame c. trace w4' = pre @ [EvRead (address A4) r4 3 (Inr frame), EvClose]
          \<and> py_index frame 2 = Inr c \<and> calcCRC r4 frame 2 = Inr c"
    if "get_16bit_value_ret T4 A4 r4 w4 = (Inr (Some v4), w4')"
  proof -
    from that obtain w0 where "get_16bit_try T4 A4 r4 w0 = (Inr (Some v4), w4')"
      unfolding get_16bit_value_ret_def by (blast dest: retries_returns)
    from get_16bit_try_accepts [OF this] obtain frame d where
      f: "crc_matches r4 frame 2 = Inr True"
        "w4' = \<lparr>device = d, trace = trace w0 @ [EvRead (address A4) r4 3 (Inr frame), EvClose]\<rparr>"
      by blast
    from crc_matches_True [OF f(1)] f(2) show ?thesis
      by auto
  qed
  have p5: "\<exists>pre frame c. trace w5' = pre @ [EvRead (address A5) REG_VERSION 5 (Inr frame), EvClose]
          \<and> py_index frame 4 = Inr c \<and> calcCRC REG_VERSION frame 4 = Inr c"
    if "get_version_ret T5 A5 w5 = (Inr (Some v5), w5')"
  proof -
    from that obtain w0 where "get_version_try T5 A5 w0 = (Inr (Some v5), w5')"
      unfolding get_version_ret_def by (blast dest: retries_returns)
    from get_version_try_accepts [OF this] obtain frame d where
      f: "crc_matches REG_VERSION frame 4 = Inr True"
        "w5' = \<lparr>device = d, trace = trace w0 @ [EvRead (address A5) REG_VERSION 5 (Inr frame), EvClose]\<rparr>"
      by blast
    from crc_matches_True [OF f(1)] f(2) show ?thesis
      by auto
  qed
  have p6: "\<exists>pre frame c. trace w6' = pre @ [EvRead (address A6) REG_UPTIME 5 (Inr frame), EvClose]
          \<and> py_index frame 4 = Inr c \<and> calcCRC REG_UPTIME frame 4 = Inr c"
    if "get_uptime_ret T6 A6 w6 = (Inr (Some v6), w6')"
  proof -
    from that obtain w0 where "get_uptime_try T6 A6 w0 = (Inr (Some v6), w6')"
      unfolding get_uptime_ret_def by (blast dest: retries_returns)
    from get_uptime_try_accepts [OF this] obtain frame d where
      f: "crc_matches REG_UPTIME frame 4 = Inr True"
        "w6' = \<lparr>device = d, trace = trace w0 @ [EvRead (address A6) REG_UPTIME 5 (Inr frame), EvClose]\<rparr>"
      by blast
    from crc_matches_True [OF f(1)] f(2) show ?thesis
      by auto
  qed
  from p1 p2 p3 p4 p5 p6 show ?thesis
    by blast
qed

theorem frames_carry_checksum_witness:
  "frames_written (trace (snd (set_8bit_value loopback (handle 1) 0x21 30 (start [])))) = [(0x37, 0x21, [30, 116])]
   \<and> calcCRC 0x21 [30] 1 = Inr 116
   \<and> frames_written (trace (snd (set_16bit_value loopback (handle 1) 0x31 (- 2) (start [])))) = [(0x37, 0x31, [254, 255, 66])]
   \<and> to_bytes_2_signed (- 2) = Inr [254, 255] \<and> calcCRC 0x31 [254, 255] 2 = Inr 66
   \<and> get_8bit_value_ret (const_bus None (Inr [30, 116])) (handle 1) 0x21 (start ()) =
       (Inr (Some 30), \<lparr>device = (), trace = [EvOpen 1, EvSleep 0, EvRead 0x37 0x21 2 (Inr [30, 116]), EvClose]\<rparr>)
   \<and> get_16bit_value_ret (const_bus None (Inr [254, 255, 66])) (handle 1) 0x31 (start ()) =
       (Inr (Some (- 2)), \<lparr>device = (), trace = [EvOpen 1, EvSleep 0, EvRead 0x37 0x31 3 (Inr [254, 255, 66]), EvClose]\<rparr>)
   \<and> get_version_ret (const_bus None (Inr [3, 2, 1, 0, 87])) (handle 1) (start ()) =
       (Inr (Some (1, 2, 3)), \<lparr>device = (), trace = [EvOpen 1, EvSleep 0, EvRead 0x37 0x80 5 (Inr [3, 2, 1, 0, 87]), EvClose]\<rparr>)
   \<and> get_uptime_ret (const_bus None (Inr [3, 2, 1, 0, 155])) (handle 1) (start ()) =
       (Inr (Some 66051), \<lparr>device = (), trace = [EvOpen 1, EvSleep 0, EvRead 0x37 0x85 5 (Inr [3, 2, 1, 0, 155]), EvClose]\<rparr>)
   \<and> calcCRC 0x80 [3, 2, 1, 0, 87] 4 = Inr 87 \<and> calcCRC 0x85 [3, 2, 1, 0, 155] 4 = Inr 155"
proof -
  have e1: "frames_written (trace (snd (set_8bit_value loopback (handle 1) 0x21 30 (start [])))) = [(0x37, 0x21, [30, 116])]"
    by code_simp
  have e2: "calcCRC 0x21 [30] 1 = Inr 116"
    by code_simp
  have e3: "frames_written (trace (snd (set_16bit_value loopback (handle 1) 0x31 (- 2) (start [])))) = [(0x37, 0x31, [254, 255, 66])]"
    by code_simp
  have e4: "to_bytes_2_signed (- 2) = Inr [254, 255]" "calcCRC 0x31 [254, 255] 2 = Inr 66"
    by code_simp+
  have e5: "get_8bit_value_ret (const_bus None (Inr [30, 116])) (handle 1) 0x21 (start ()) =
       (Inr (Some 30), \<lparr>device = (), trace = [EvOpen 1, EvSleep 0, EvRead 0x37 0x21 2 (Inr [30, 116]), EvClose]\<rparr>)"
    by code_simp
  have e6: "get_16bit_value_ret (const_bus None (Inr [254, 255, 66])) (handle 1) 0x31 (start ()) =
       (Inr (Some (- 2)), \<lparr>device = (), trace = [EvOpen 1, EvSleep 0, EvRead 0x37 0x31 3 (Inr [254, 255, 66]), EvClose]\<rparr>)"
    by code_simp
  have e7: "get_version_ret (const_bus None (Inr [3, 2, 1, 0, 87])) (handle 1) (start ()) =
       (Inr (Some (1, 2, 3)), \<lparr>device = (), trace = [EvOpen 1, EvSleep 0, EvRead 0x37 0x80 5 (Inr [3, 2, 1, 0, 87]), EvClose]\<rparr>)"
    by code_simp
  have e8: "get_uptime_ret (const_bus None (Inr [3, 2, 1, 0, 155])) (handle 1) (start ()) =
       (Inr (Some 66051), \<lparr>device = (), trace = [EvOpen 1, EvSleep 0, EvRead 0x37 0x85 5 (Inr [3, 2, 1, 0, 155]), EvClose]\<rparr>)"
    by code_simp
  have e9: "calcCRC 0x80 [3, 2, 1, 0, 87] 4 = Inr 87" "calcCRC 0x85 [3, 2, 1, 0, 155] 4 = Inr 155"
    by code_simp+
  show ?thesis
    using e1 e2 e3 e4 e5 e6 e7 e8 e9
      frames_carry_checksum [where ?T1.0 = loopback and ?A1.0 = "handle 1" and ?r1.0 = "0x21"
        and ?v1.0 = 30 and ?w1.0 = "start []"
        and ?T2.0 = loopback and ?A2.0 = "handle 1" and ?r2.0 = "0x31"
        and ?v2.0 = "- 2" and ?w2.0 = "start []"
        and ?T3.0 = "const_bus None (Inr [30, 116])" and ?A3.0 = "handle 1" and ?r3.0 = "0x21"
        and ?w3.0 = "start ()" and ?v3.0 = 30
        and ?T4.0 = "const_bus None (Inr [254, 255, 66])" and ?A4.0 = "handle 1" and ?r4.0 = "0x31"
        and ?w4.0 = "start ()" and ?v4.0 = "- 2"
        and ?T5.0 = "const_bus None (Inr [3, 2, 1, 0, 87])" and ?A5.0 = "handle 1"
        and ?w5.0 = "start ()" and ?v5.0 = "(1, 2, 3)"
        and ?T6.0 = "const_bus None (Inr [3, 2, 1, 0, 155])" and ?A6.0 = "handle 1"
        and ?w6.0 = "start ()" and ?v6.0 = 66051
        and ?w3' = "\<lparr>device = (), trace = [EvOpen 1, EvSleep 0, EvRead 0x37 0x21 2 (Inr [30, 116]), EvClose]\<rparr>"
        and ?w4' = "\<lparr>device = (), trace = [EvOpen 1, EvSleep 0, EvRead 0x37 0x31 3 (Inr [254, 255, 66]), EvClose]\<rparr>"
        and ?w5' = "\<lparr>device = (), trace = [EvOpen 1, EvSleep 0, EvRead 0x37 0x80 5 (Inr [3, 2, 1, 0, 87]), EvClose]\<rparr>"
        and ?w6' = "\<lparr>device = (), trace = [EvOpen 1, EvSleep 0, EvRead 0x37 0x85 5 (Inr [3, 2, 1, 0, 155]), EvClose]\<rparr>"]
    by simp
qed


section \<open>Writes\<close>

lemma world_update: "(w :: 'd world)\<lparr>device := d, trace := t\<rparr> = \<lparr>device = d, trace = t\<rparr>"
  by (cases w) simp

lemma returning_Inr:
  "returning m r = (Inr x, w') \<Longrightarrow> r = (Inr (Some x), w') \<or> (r = (Inr None, w') \<and> x = m)"
  by (auto simp add: returning_def split: prod.splits sum.splits option.splits)

lemma set_8bit_try_verified:
  assumes "set_8bit_try T A r v xs w0 = (Inr (Some b), w')"
  shows "\<exists>w1. write_block T A r xs w0 = (None, w1)
           \<and> get_8bit_value T A r (close w1) = (Inr v, w') \<and> b"
  using assms
  by (auto simp add: set_8bit_try_def split: prod.splits option.splits sum.splits if_splits)

lemma set_16bit_try_verified:
  assumes "set_16bit_try T A r v xs w0 = (Inr (Some b), w')"
  shows "\<exists>w1. write_block T A r xs w0 = (None, w1)
           \<and> get_16bit_value T A r (close w1) = (Inr v, w') \<and> b"
  using assms
  by (auto simp add: set_16bit_try_def split: prod.splits option.splits sum.splits if_splits)

lemma set_8bit_value_True:
  assumes "set_8bit_value T A r v w = (Inr True, w')" and "v \<noteq> 0xFFFF"
  shows "\<exists>w0 w1. prefix (trace w) (trace w0)
           \<and> write_block T A r (arg_list_8bit r v) w0 = (None, w1)
           \<and> get_8bit_value_ret T A r (close w1) = (Inr (Some v), w')"
proof -
  from assms(1) have "retries T A (set_8bit_try T A r v (arg_list_8bit r v)) w = (Inr (Some True), w')"
    unfolding set_8bit_value_def by (auto dest: returning_Inr)
  from retries_returns_prefix [where body = "set_8bit_try T A r v (arg_list_8bit r v)",
      OF set_8bit_try_prefix this]
  obtain w0 where w0: "prefix (trace w) (trace w0)"
    "set_8bit_try T A r v (arg_list_8bit r v) w0 = (Inr (Some True), w')"
    by blast
  from set_8bit_try_verified [OF w0(2)] obtain w1 where
    w1: "write_block T A r (arg_list_8bit r v) w0 = (None, w1)"
      "get_8bit_value T A r (close w1) = (Inr v, w')"
    by blast
  from w1(2) assms(2) have "get_8bit_value_ret T A r (close w1) = (Inr (Some v), w')"
    unfolding get_8bit_value_def by (auto simp add: marker_8bit_def dest: returning_Inr)
  with w0(1) w1(1) show ?thesis by blast
qed

lemma arg_list_16bit_Inr:
  "arg_list_16bit r v = Inr xs \<Longrightarrow> - 32768 \<le> v \<and> v \<le> 32767"
  by (auto simp add: arg_list_16bit_def to_bytes_2_signed_def split: sum.splits if_splits)

lemma set_16bit_value_True:
  assumes "set_16bit_value T A r v w = (Inr True, w')"
  shows "\<exists>xs w0 w1. arg_list_16bit r v = Inr xs \<and> prefix (trace w) (trace w0)
           \<and> write_block T A r xs w0 = (None, w1)
           \<and> get_16bit_value_ret T A r (close w1) = (Inr (Some v), w')"
proof -
  from assms obtain xs where xs: "arg_list_16bit r v = Inr xs"
    and ret: "returning False (retries T A (set_16bit_try T A r v xs) w) = (Inr True, w')"
    unfolding set_16bit_value_def by (auto split: sum.splits)
  from ret have "retries T A (set_16bit_try T A r v xs) w = (Inr (Some True), w')"
    by (auto dest: returning_Inr)
  from retries_returns_prefix [where body = "set_16bit_try T A r v xs",
      OF set_16bit_try_prefix this]
  obtain w0 where w0: "prefix (trace w) (trace w0)"
    "set_16bit_try T A r v xs w0 = (Inr (Some True), w')"
    by blast
  from set_16bit_try_verified [OF w0(2)] obtain w1 where
    w1: "write_block T A r xs w0 = (None, w1)"
      "get_16bit_value T A r (close w1) = (Inr v, w')"
    by blast
  from arg_list_16bit_Inr [OF xs] have "v \<noteq> marker_16bit"
    by (simp add: marker_16bit_def)
  with w1(2) have "get_16bit_value_ret T A r (close w1) = (Inr (Some v), w')"
    unfolding get_16bit_value_def by (auto dest: returning_Inr)
  with xs w0(1) w1(1) show ?thesis by blast
qed

lemma set_8bit_value_first_attempt:
  assumes n: "0 < num_retries A"
    and tc: "0 \<le> time_const A"
    and o1: "SMBus T (bus_number A) (device w) = (None, d1)"
    and wr: "write_i2c_block_data T (address A) r [v, c] d1 = (None, d2)"
    and o2: "SMBus T (bus_number A) d2 = (None, d3)"
    and rd: "read_i2c_block_data T (address A) r 2 d3 = (Inr [v, c], d4)"
    and c: "calcCRC r [v] 1 = Inr c"
  shows "set_8bit_value T A r v w =
           (Inr True,
            \<lparr>device = d4,
             trace = trace w @
               [EvOpen (bus_number A), EvSleep (time_const A), EvWrite (address A) r [v, c] None, EvClose,
                EvOpen (bus_number A), EvSleep (time_const A), EvRead (address A) r 2 (Inr [v, c]), EvClose]\<rparr>)"
proof -
  let ?t1 = "trace w @ [EvOpen (bus_number A)]"
  let ?t4 = "trace w @ [EvOpen (bus_number A), EvSleep (time_const A), EvWrite (address A) r [v, c] None, EvClose]"
  let ?t5 = "?t4 @ [EvOpen (bus_number A)]"
  let ?t8 = "?t4 @ [EvOpen (bus_number A), EvSleep (time_const A), EvRead (address A) r 2 (Inr [v, c]), EvClose]"
  have cc: "c = addCrc (addCrc 0 r) v"
    using c by (simp add: calcCRC_1)
  have al: "arg_list_8bit r v = [v, c]"
    by (simp add: arg_list_8bit_def cc)
  have m: "crc_matches r [v, c] 1 = Inr True"
    by (simp add: crc_matches_def py_index_def calcCRC_1 cc)
  have ob2: "open_bus T A \<lparr>device = d2, trace = ?t4\<rparr> = (None, \<lparr>device = d3, trace = ?t5\<rparr>)"
    using o2 by (simp add: open_bus_def)
  have gt: "get_8bit_try T A r (slept A \<lparr>device = d3, trace = ?t5\<rparr>) =
              (Inr (Some v), \<lparr>device = d4, trace = ?t8\<rparr>)"
    using rd m by (simp add: get_8bit_try_def read_block_def slept_def close_def py_index_def)
  have gv: "get_8bit_value T A r \<lparr>device = d2, trace = ?t4\<rparr> = (Inr v, \<lparr>device = d4, trace = ?t8\<rparr>)"
    using retries_first [where body = "get_8bit_try T A r", OF n ob2 gt tc]
    by (simp add: get_8bit_value_def get_8bit_value_ret_def returning_def)
  have ob1: "open_bus T A w = (None, w\<lparr>device := d1, trace := ?t1\<rparr>)"
    using o1 by (simp add: open_bus_def)
  have st: "set_8bit_try T A r v [v, c] (slept A (w\<lparr>device := d1, trace := ?t1\<rparr>)) =
              (Inr (Some True), \<lparr>device = d4, trace = ?t8\<rparr>)"
    using wr gv by (simp add: set_8bit_try_def write_block_def slept_def close_def world_update)
  show ?thesis
    using retries_first [where body = "set_8bit_try T A r v [v, c]", OF n ob1 st tc]
    by (simp add: set_8bit_value_def al returning_def)
qed

text \<open>
  C5. A write returns \<open>True\<close> only if, in some attempt of the call, the block write of the
  frame returned and the read-back of the same register that followed decoded the original
  value from an accepted frame, the call ending where that read-back ended. This holds of
  \<^verbatim>\<open>set_16bit_value\<close> for every value and of \<^verbatim>\<open>set_8bit_value\<close> for every value of its
  domain, a signed or unsigned 8-bit value, \<open>-128 \<le> value \<le> 255\<close> (none of which is the
  marker \<open>0xFFFF\<close> that the read-back returns when its retries are exhausted). Against a
  bus that takes the frame \<open>[30, crc]\<close> for register \<open>0x21\<close> and answers the read-back
  with it, \<^verbatim>\<open>set_8bit_value(0x21, 30)\<close> returns \<open>True\<close> on the first attempt, after one
  block write and one block read; the handle has at least one retry and a delay that is
  not negative.
\<close>

theorem set_value_true_only_after_read_back:
  "(set_16bit_value T1 A1 r1 v1 w1 = (Inr True, w1') \<longrightarrow>
      (\<exists>xs wa wb. arg_list_16bit r1 v1 = Inr xs \<and> prefix (trace w1) (trace wa)
         \<and> write_block T1 A1 r1 xs wa = (None, wb)
         \<and> get_16bit_value_ret T1 A1 r1 (close wb) = (Inr (Some v1), w1')))
   \<and> (set_8bit_value T2 A2 r2 v2 w2 = (Inr True, w2') \<and> - 128 \<le> v2 \<and> v2 \<le> 255 \<longrightarrow>
      (\<exists>wa wb. prefix (trace w2) (trace wa)
         \<and> write_block T2 A2 r2 (arg_list_8bit r2 v2) wa = (None, wb)
         \<and> get_8bit_value_ret T2 A2 r2 (close wb) = (Inr (Some v2), w2')))
   \<and> (0 < num_retries A3 \<and> 0 \<le> time_const A3
       \<and> SMBus T3 (bus_number A3) (device w3) = (None, d1)
       \<and> write_i2c_block_data T3 (address A3) 0x21 [30, c] d1 = (None, d2)
       \<and> SMBus T3 (bus_number A3) d2 = (None, d3)
       \<and> read_i2c_block_data T3 (address A3) 0x21 2 d3 = (Inr [30, c], d4)
       \<and> calcCRC 0x21 [30] 1 = Inr c \<longrightarrow>
      set_8bit_value T3 A3 0x21 30 w3 =
        (Inr True,
         \<lparr>device = d4,
          trace = trace w3 @
            [EvOpen (bus_number A3), EvSleep (time_const A3), EvWrite (address A3) 0x21 [30, c] None, EvClose,
             EvOpen (bus_number A3), EvSleep (time_const A3), EvRead (address A3) 0x21 2 (Inr [30, c]), EvClose]\<rparr>))"
  using set_16bit_value_True [of T1 A1 r1 v1 w1 w1'] set_8bit_value_True [of T2 A2 r2 v2 w2 w2']
    set_8bit_value_first_attempt [of A3 T3 w3 d1 "0x21" 30 c d2 d3 d4]
  by fastforce

theorem set_value_true_only_after_read_back_witness:
  "set_16bit_value loopback (handle 1) 0x31 (- 2) (start []) =
     (Inr True,
      \<lparr>device = [(0x31, [254, 255, 66])],
       trace = [EvOpen 1, EvSleep 0, EvWrite 0x37 0x31 [254, 255, 66] None, EvClose,
                EvOpen 1, EvSleep 0, EvRead 0x37 0x31 3 (Inr [254, 255, 66]), EvClose]\<rparr>)
   \<and> set_8bit_value loopback (handle 1) 0x21 30 (start []) =
     (Inr True,
      \<lparr>device = [(0x21, [30, 116])],
       trace = [EvOpen 1, EvSleep 0, EvWrite 0x37 0x21 [30, 116] None, EvClose,
                EvOpen 1, EvSleep 0, EvRead 0x37 0x21 2 (Inr [30, 116]), EvClose]\<rparr>)
   \<and> calcCRC 0x21 [30] 1 = Inr 116
   \<and> write_i2c_block_data loopback 0x37 0x21 [30, 116] [] = (None, [(0x21, [30, 116])])
   \<and> read_i2c_block_data loopback 0x37 0x21 2 [(0x21, [30, 116])] = (Inr [30, 116], [(0x21, [30, 116])])"
proof -
  have e1: "set_16bit_value loopback (handle 1) 0x31 (- 2) (start []) =
     (Inr True,
      \<lparr>device = [(0x31, [254, 255, 66])],
       trace = [EvOpen 1, EvSleep 0, EvWrite 0x37 0x31 [254, 255, 66] None, EvClose,
                EvOpen 1, EvSleep 0, EvRead 0x37 0x31 3 (Inr [254, 255, 66]), EvClose]\<rparr>)"
    by code_simp
  have e2: "calcCRC 0x21 [30] 1 = Inr 116"
    by code_simp
  have e3: "write_i2c_block_data loopback 0x37 0x21 [30, 116] [] = (None, [(0x21, [30, 116])])"
    "read_i2c_block_data loopback 0x37 0x21 2 [(0x21, [30, 116])] = (Inr [30, 116], [(0x21, [30, 116])])"
    "SMBus loopback 1 [] = (None, [])"
    "SMBus loopback 1 [(0x21, [30, 116])] = (None, [(0x21, [30, 116])])"
    by (simp_all add: loopback_def)
  show ?thesis
    using e1 e2 e3
      set_value_true_only_after_read_back [where ?T1.0 = loopback and ?A1.0 = "handle 1"
        and ?r1.0 = "0x31" and ?v1.0 = "- 2" and ?w1.0 = "start []"
        and ?T2.0 = loopback and ?A2.0 = "handle 1" and ?r2.0 = "0x21" and ?v2.0 = 30
        and ?w2.0 = "start []"
        and ?T3.0 = loopback and ?A3.0 = "handle 1" and ?w3.0 = "start []"
        and ?d1.0 = "[]" and c = 116 and ?d2.0 = "[(0x21, [30, 116])]"
        and ?d3.0 = "[(0x21, [30, 116])]" and ?d4.0 = "[(0x21, [30, 116])]"
        and ?w1' = "\<lparr>device = [(0x31, [254, 255, 66])],
           trace = [EvOpen 1, EvSleep 0, EvWrite 0x37 0x31 [254, 255, 66] None, EvClose,
                    EvOpen 1, EvSleep 0, EvRead 0x37 0x31 3 (Inr [254, 255, 66]), EvClose]\<rparr>"
        and ?w2' = "\<lparr>device = [(0x21, [30, 116])],
           trace = [EvOpen 1, EvSleep 0, EvWrite 0x37 0x21 [30, 116] None, EvClose,
                    EvOpen 1, EvSleep 0, EvRead 0x37 0x21 2 (Inr [30, 116]), EvClose]\<rparr>"]
    by (simp add: handle_def start_def)
qed

section \<open>Sessions\<close>

text \<open>
  C4. Each attempt is to close its session on every exit path. The methods call
  \<^verbatim>\<open>bus.close()\<close> inside the \<^verbatim>\<open>try\<close>, after the block operation, so an attempt whose
  block write or block read raises leaves its session without a call of \<^verbatim>\<open>close\<close>. With
  two retries on a bus whose block operations raise, \<^verbatim>\<open>set_8bit_value\<close> and
  \<^verbatim>\<open>get_16bit_value\<close> open two sessions and close none: the second session is opened
  while the first is not closed, and both are unclosed when the call returns. The trace
  holds the calls the code makes; what the library does to a handle object once Python
  drops it is not a call of the code, and it comes after the next session is open.
\<close>

theorem set_8bit_value_write_error_sessions:
  "set_8bit_value (const_bus (Some OSError) (Inl OSError)) (handle 2) 0x21 30 (start ()) =
     (Inr False,
      \<lparr>device = (),
       trace = [EvOpen 1, EvSleep 0, EvWrite 0x37 0x21 [30, 116] (Some OSError),
                EvOpen 1, EvSleep 0, EvWrite 0x37 0x21 [30, 116] (Some OSError)]\<rparr>)
   \<and> open_sessions (trace (snd (set_8bit_value (const_bus (Some OSError) (Inl OSError)) (handle 2) 0x21 30 (start ())))) = 2
   \<and> get_16bit_value (const_bus None (Inl OSError)) (handle 2) 0x11 (start ()) =
     (Inr 0xFFFFFFFF,
      \<lparr>device = (),
       trace = [EvOpen 1, EvSleep 0, EvRead 0x37 0x11 3 (Inl OSError),
                EvOpen 1, EvSleep 0, EvRead 0x37 0x11 3 (Inl OSError)]\<rparr>)
   \<and> open_sessions (trace (snd (get_16bit_value (const_bus None (Inl OSError)) (handle 2) 0x11 (start ())))) = 2"
  by code_simp

section \<open>Values out of range\<close>

lemma set_16bit_value_overflow:
  assumes "v < - 32768 \<or> 32767 < v"
  shows "set_16bit_value T A r v w = (Inl OverflowError, w)"
  using assms by (auto simp add: set_16bit_value_def arg_list_16bit_def to_bytes_2_signed_def)

text \<open>
  C3. A value outside the range of the target width is to make the write fail at once with
  an encoding error, before any bus transaction and without a retry. \<^verbatim>\<open>set_16bit_value\<close>
  does so: \<^verbatim>\<open>to_bytes\<close> raises \<open>OverflowError\<close> before the loop and the world is
  unchanged. \<^verbatim>\<open>set_8bit_value\<close> does not: it has no check of the value. For the value
  \<open>300\<close>, with two retries on a bus that stores what is written, it opens a session and
  writes the frame \<open>[300, 211]\<close> on each of its two attempts; the bus keeps the byte
  \<open>44\<close>, the read-back decodes \<open>44\<close>, and the call returns \<open>False\<close> with no error raised.
\<close>

theorem set_8bit_value_out_of_range:
  "set_8bit_value loopback (handle 2) 0x21 300 (start []) =
     (Inr False,
      \<lparr>device = [(0x21, [44, 211]), (0x21, [44, 211])],
       trace = [EvOpen 1, EvSleep 0, EvWrite 0x37 0x21 [300, 211] None, EvClose,
                EvOpen 1, EvSleep 0, EvRead 0x37 0x21 2 (Inr [44, 211]), EvClose,
                EvOpen 1, EvSleep 0, EvWrite 0x37 0x21 [300, 211] None, EvClose,
                EvOpen 1, EvSleep 0, EvRead 0x37 0x21 2 (Inr [44, 211]), EvClose]\<rparr>)
   \<and> set_16bit_value loopback (handle 2) 0x31 40000 (start []) = (Inl OverflowError, start [])"
  by code_simp

end
